theory Spec2Isabelle
  imports Main
begin

section \<open>The walkthrough editor part: data model\<close>

text \<open>
  A shallow embedding of \<^verbatim>\<open>WalkThroughPart\<close>
  (\<^verbatim>\<open>vs/workbench/parts/walkThrough/electron-browser/walkThroughPart.ts\<close>).
  The part's fields become one record that every method takes and returns; the DOM nodes
  the part creates live in an explicit store, since the snippet closures keep references
  to them; collaborators that are injected through the constructor are a record of
  functions; exceptions are the left summand of a sum.
\<close>

subsection \<open>View states and the memento\<close>

text \<open>\<^verbatim>\<open>IViewState\<close>: the two scroll offsets.\<close>

record view_state =
  scrollTop :: int
  scrollLeft :: int

text \<open>\<^verbatim>\<open>IWalkThroughEditorViewState\<close>: an object with the single field \<^verbatim>\<open>viewState\<close>.\<close>

record editor_view_state =
  viewState :: view_state

text \<open>
  \<^verbatim>\<open>IWalkThroughEditorViewStates\<close>: one optional view state per editor position. The
  objects are made with \<^verbatim>\<open>Object.create(null)\<close>, so they hold exactly the keys written.
\<close>

type_synonym file_view_states = "nat \<rightharpoonup> editor_view_state"

text \<open>
  The value stored in the workspace memento under the key
  \<^verbatim>\<open>'walkThroughEditorViewState'\<close>: absent, or an object from \<^verbatim>\<open>resource.toString()\<close> to the
  per-position states.
\<close>

type_synonym view_state_memento = "(string \<rightharpoonup> file_view_states) option"

subsection \<open>URIs and inputs\<close>

record uri =
  scheme :: string
  authority :: string
  path :: string
  query :: string
  fragment :: string

text \<open>
  \<^verbatim>\<open>URI.toString\<close> is outside the file. The part uses it only as the key of a document
  in the memento; this rendering keeps the five components apart.
\<close>

definition uri_toString :: "uri \<Rightarrow> string" where
  "uri_toString u =
     scheme u @ '':'' @ ''//'' @ authority u @ path u @ ''?'' @ query u @ ''#'' @ fragment u"

text \<open>
  \<^verbatim>\<open>WalkThroughInput\<close>, as far as the part reads it: the resource, whether an
  \<^verbatim>\<open>onReady\<close> callback is present, and the telemetry origin.
\<close>

record walk_input =
  resource :: uri
  onReady :: bool
  telemetryFrom :: string

text \<open>\<^verbatim>\<open>this.input\<close> has the type of any editor input; the part tests it with \<^verbatim>\<open>instanceof\<close>.\<close>

datatype editor_input = WalkThroughInput walk_input | OtherInput

text \<open>
  The fields the part inherits from \<^verbatim>\<open>BaseEditor\<close>: the current input and the editor
  position, which is a number once the editor has been placed and \<^verbatim>\<open>undefined\<close> before.
  \<^verbatim>\<open>BaseEditor\<close> is outside the file, so each \<^verbatim>\<open>super\<close> call is a parameter of the
  method that makes it: a function on these fields.
\<close>

record base_editor =
  input :: "editor_input option"
  position :: "nat option"

subsection \<open>DOM nodes, editors, disposables\<close>

text \<open>
  A style length as the part writes and compares it: the template string
  \<^verbatim>\<open>`${n}px`\<close> is \<open>Px n\<close>, the empty string of a style never set is \<open>Unset\<close>.
\<close>

datatype css_len = Unset | Px nat

text \<open>
  An element of the content subtree: its \<^verbatim>\<open>id\<close> (empty when it has none), its class list
  and its inline height.
\<close>

record element =
  el_id :: string
  el_classes :: "string list"
  el_height :: css_len

text \<open>
  A child of the content node: the address of the child element and the addresses of its
  descendants in document order.
\<close>

record root =
  root_el :: nat
  descendants :: "nat list"

text \<open>A snippet model: the fragment of its URI and its line count.\<close>

record snippet =
  snippet_fragment :: string
  lineCount :: nat

text \<open>
  A \<^verbatim>\<open>CodeEditor\<close> created by the part: the element it was created on, its model, the line
  height of its configuration and its theme.
\<close>

record code_editor =
  ed_host :: nat
  ed_model :: snippet
  lineHeight :: nat
  ed_theme :: string

text \<open>
  What the part pushes on its two disposable lists: the scrollbar, the editors, and the
  three kinds of subscription (restyling of a root on theme change, height update of an
  editor on content change, theme update of an editor).
\<close>

datatype disposable =
    Scrollbar
  | CodeEditor nat
  | RootStyleSub nat
  | ContentChangeSub nat
  | EditorThemeSub nat

text \<open>The observable effects, in the order the part performs them.\<close>

datatype event =
    Persisted string nat view_state
  | Disposed disposable
  | ContentCleared
  | MarkupSet
  | RootAppended nat
  | Styled nat
  | HeightSet nat css_len
  | EditorLayout nat
  | EditorFocus nat
  | Rescan
  | ScrollUpdated
  | Opened uri
  | DefaultPrevented
  | Ready
  | Decorated

datatype error = TypeError | SyntaxError

text \<open>The part itself.\<close>

record part =
  editor_base :: base_editor
  memento :: view_state_memento
  scrollbar :: view_state
  content_height :: css_len
  content_width :: css_len
  content :: "root list"
  store :: "nat \<rightharpoonup> element"
  next_addr :: nat
  editors :: "nat \<rightharpoonup> code_editor"
  next_editor :: nat
  contentDisposables :: "disposable list"
  disposables :: "disposable list"
  trace :: "event list"

subsection \<open>Collaborators\<close>

text \<open>
  What the Markdown engine and the HTML parser hand back for a document, as far as the
  part can observe it: the elements rendered for a stretch of prose, in document order,
  or a fenced code block with its code and language, for which the engine calls the
  part's \<^verbatim>\<open>renderer.code\<close>.
\<close>

datatype md_block = Prose "element list" | Fence string string

text \<open>A value of \<^verbatim>\<open>JSON.parse\<close>.\<close>

datatype json =
    JNull
  | JBool bool
  | JNumber int
  | JString string
  | JArray "json list"
  | JObject "(string \<times> json) list"

type_synonym keybinding = nat

text \<open>
  The services injected through the constructor and the library functions the part
  calls, none of which is in the file: the keybinding service, the colour theme, the line
  height of the editor configuration, \<^verbatim>\<open>marked\<close> followed by the parsing of its output
  (\<open>marked_blocks\<close>), the parsing of a markup document into top-level elements with their
  descendants (\<open>parse_html\<close>), \<^verbatim>\<open>URI.parse\<close>, \<^verbatim>\<open>JSON.parse\<close> (\<open>None\<close> when it throws)
  and \<^verbatim>\<open>JSON.stringify\<close>.
\<close>

record services =
  lookupKeybindings :: "string \<Rightarrow> keybinding list"
  getLabelFor :: "keybinding \<Rightarrow> string"
  colorTheme :: string
  editorLineHeight :: nat
  marked_blocks :: "string \<Rightarrow> md_block list"
  parse_html :: "string \<Rightarrow> (element \<times> element list) list"
  uri_parse :: "string \<Rightarrow> uri"
  json_parse :: "string \<Rightarrow> json option"
  json_stringify :: "json \<Rightarrow> string"

section \<open>The view-state store\<close>

text \<open>
  \<^verbatim>\<open>saveTextEditorViewState\<close>: both levels of the memento are created when absent; the
  entry is written only when \<^verbatim>\<open>typeof this.position === 'number'\<close>.
\<close>

definition saveTextEditorViewState :: "uri \<Rightarrow> part \<Rightarrow> part" where
  "saveTextEditorViewState r p =
     (let editorViewStateMemento = (case memento p of None \<Rightarrow> Map.empty | Some m \<Rightarrow> m);
          editorViewState = \<lparr>viewState = \<lparr>scrollTop = scrollTop (scrollbar p),
                                           scrollLeft = scrollLeft (scrollbar p)\<rparr>\<rparr>;
          fileViewState = (case editorViewStateMemento (uri_toString r) of
                             None \<Rightarrow> Map.empty | Some f \<Rightarrow> f)
      in case position (editor_base p) of
           None \<Rightarrow>
             p\<lparr>memento := Some (editorViewStateMemento(uri_toString r \<mapsto> fileViewState))\<rparr>
         | Some k \<Rightarrow>
             p\<lparr>memento := Some (editorViewStateMemento
                                   (uri_toString r \<mapsto> fileViewState(k \<mapsto> editorViewState))),
               trace := trace p @ [Persisted (uri_toString r) k (viewState editorViewState)]\<rparr>)"

text \<open>
  The lookup that \<^verbatim>\<open>loadTextEditorViewState\<close> performs: nothing when either level or the
  entry is absent. With an undefined position the key read is \<^verbatim>\<open>'undefined'\<close>, which is
  never written.
\<close>

definition lookupViewState :: "uri \<Rightarrow> part \<Rightarrow> editor_view_state option" where
  "lookupViewState r p =
     (case memento p of
        None \<Rightarrow> None
      | Some editorViewStateMemento \<Rightarrow>
          (case editorViewStateMemento (uri_toString r) of
             None \<Rightarrow> None
           | Some fileViewState \<Rightarrow>
               (case position (editor_base p) of
                  None \<Rightarrow> None
                | Some k \<Rightarrow> fileViewState k)))"

text \<open>
  \<^verbatim>\<open>loadTextEditorViewState\<close>: a state that is found is handed to
  \<^verbatim>\<open>scrollbar.updateState\<close>, which here sets both offsets as given.
\<close>

definition loadTextEditorViewState :: "uri \<Rightarrow> part \<Rightarrow> part" where
  "loadTextEditorViewState r p =
     (case lookupViewState r p of
        None \<Rightarrow> p
      | Some state \<Rightarrow> p\<lparr>scrollbar := viewState state, trace := trace p @ [ScrollUpdated]\<rparr>)"

text \<open>
  The host's side of a save, for stating histories: the part sits at position \<open>s\<close> with
  scroll offsets \<open>S\<close> when it saves document \<open>d\<close>.
\<close>

definition at_position :: "nat \<Rightarrow> part \<Rightarrow> part" where
  "at_position s p = p\<lparr>editor_base := (editor_base p)\<lparr>position := Some s\<rparr>\<rparr>"

definition scrolled :: "view_state \<Rightarrow> part \<Rightarrow> part" where
  "scrolled S p = p\<lparr>scrollbar := S\<rparr>"


text \<open>The entry of the memento for a document key and a position.\<close>

definition stored :: "part \<Rightarrow> string \<Rightarrow> nat \<Rightarrow> editor_view_state option" where
  "stored p key k =
     (case memento p of
        None \<Rightarrow> None
      | Some m \<Rightarrow> (case m key of None \<Rightarrow> None | Some f \<Rightarrow> f k))"

section \<open>Macro expansion\<close>

text \<open>
  The character class \<^verbatim>\<open>[a-z.\d\-]\<close> under the flag \<^verbatim>\<open>i\<close>. Strings are byte strings here;
  no byte of a character outside ASCII is in the class, and under \<^verbatim>\<open>i\<close> without \<^verbatim>\<open>u\<close> no
  character outside ASCII matches an ASCII letter.
\<close>

definition is_kb_char :: "char \<Rightarrow> bool" where
  "is_kb_char c \<longleftrightarrow>
     c \<in> set ''abcdefghijklmnopqrstuvwxyzABCDEFGHIJKLMNOPQRSTUVWXYZ0123456789.-''"

text \<open>
  One attempt of \<^verbatim>\<open>/kb\(([a-z.\d\-]+)\)/gi\<close> at the head of a string: the captured command
  and the text after the match. The class excludes the closing parenthesis, so the
  greedy run is the only candidate.
\<close>

definition match_kb :: "string \<Rightarrow> (string \<times> string) option" where
  "match_kb s =
     (case s of
        k # b # p # rest \<Rightarrow>
          if (k = CHR ''k'' \<or> k = CHR ''K'') \<and> (b = CHR ''b'' \<or> b = CHR ''B'') \<and> p = CHR ''(''
          then (case dropWhile is_kb_char rest of
                  [] \<Rightarrow> None
                | c # after \<Rightarrow>
                    if takeWhile is_kb_char rest \<noteq> [] \<and> c = CHR '')''
                    then Some (takeWhile is_kb_char rest, after) else None)
          else None
      | _ \<Rightarrow> None)"

lemma match_kb_shorter: "match_kb s = Some (kb, after) \<Longrightarrow> length after < length s"
proof -
  assume m: "match_kb s = Some (kb, after)"
  then obtain k b p rest where s: "s = k # b # p # rest"
    by (auto simp: match_kb_def split: list.splits)
  from m s obtain c where d: "dropWhile is_kb_char rest = c # after"
    by (auto simp: match_kb_def split: list.splits if_splits)
  have "length (dropWhile is_kb_char rest) \<le> length rest"
    by (rule length_dropWhile_le)
  with d s show ?thesis by simp
qed

definition UNBOUND_COMMAND :: string where
  "UNBOUND_COMMAND = ''unbound''"

text \<open>
  The replacement callback of \<^verbatim>\<open>expandMacros\<close>; \<open>CHR 0x22\<close> is the double quote of the
  \<^verbatim>\<open>class\<close> attribute.
\<close>

definition shortcut_span :: "services \<Rightarrow> string \<Rightarrow> string" where
  "shortcut_span sv kb =
     (let shortcut = (case lookupKeybindings sv kb of
                        [] \<Rightarrow> UNBOUND_COMMAND
                      | keybinding # _ \<Rightarrow> getLabelFor sv keybinding)
      in ''<span class='' @ [CHR 0x22] @ ''shortcut'' @ [CHR 0x22] @ ''>'' @ shortcut @ ''</span>'')"

text \<open>
  \<^verbatim>\<open>input.replace(regex, callback)\<close> with a global regex: matches are taken left to right,
  the scan resumes after each match, and text outside the matches is copied.
\<close>

function expandMacros :: "services \<Rightarrow> string \<Rightarrow> string" where
  "expandMacros sv [] = []"
| "expandMacros sv (c # cs) =
     (case match_kb (c # cs) of
        Some (kb, after) \<Rightarrow> shortcut_span sv kb @ expandMacros sv after
      | None \<Rightarrow> c # expandMacros sv cs)"
  by pat_completeness auto
termination
  by (relation "measure (\<lambda>(sv, s). length s)") (auto dest: match_kb_shorter)

section \<open>Selectors\<close>

text \<open>
  \<^verbatim>\<open>querySelector\<close> is called with two kinds of selector: \<^verbatim>\<open>#\<close> followed by a snippet id with
  its dots escaped, and the \<^verbatim>\<open>hash\<close> of a clicked link. Both are compound selectors made of
  one id and any number of classes, and this is the part of the selector syntax that is
  modelled: a name is a run of letters, digits, hyphens, underscores and escaped
  characters; it does not start with a digit, or with a hyphen that a digit follows. A
  string outside that syntax is answered with \<open>SyntaxError\<close>, the exception
  \<^verbatim>\<open>querySelector\<close> throws for a selector it cannot parse. Hexadecimal escapes, which the
  part never writes, are answered the same way.
\<close>

definition is_digit :: "char \<Rightarrow> bool" where
  "is_digit c \<longleftrightarrow> c \<in> set ''0123456789''"

definition is_hex_digit :: "char \<Rightarrow> bool" where
  "is_hex_digit c \<longleftrightarrow> c \<in> set ''0123456789abcdefABCDEF''"

definition is_name_char :: "char \<Rightarrow> bool" where
  "is_name_char c \<longleftrightarrow>
     c \<in> set ''abcdefghijklmnopqrstuvwxyzABCDEFGHIJKLMNOPQRSTUVWXYZ0123456789-_''"

fun name_start_ok :: "string \<Rightarrow> bool" where
  "name_start_ok [] = False"
| "name_start_ok (c # cs) =
     (if is_digit c then False
      else if c = CHR ''-'' then (case cs of [] \<Rightarrow> False | d # _ \<Rightarrow> \<not> is_digit d \<and> d \<noteq> CHR ''.'')
      else True)"

text \<open>
  The scan of the names of a compound selector: \<open>cur\<close> is the name being read, \<open>names\<close>
  the names completed so far. \<open>CHR 0x5C\<close> is the backslash, \<open>CHR 0x0A\<close> the line feed.
\<close>

fun sel_scan :: "string \<Rightarrow> string list \<Rightarrow> string \<Rightarrow> string list option" where
  "sel_scan cur names [] = (if cur = [] then None else Some (names @ [cur]))"
| "sel_scan cur names (c # cs) =
     (if c = CHR ''.'' then
        (if cur = [] \<or> \<not> name_start_ok cs then None else sel_scan [] (names @ [cur]) cs)
      else if c = CHR 0x5C then
        (case cs of
           [] \<Rightarrow> None
         | e # es \<Rightarrow>
             if is_hex_digit e \<or> e = CHR 0x0A then None else sel_scan (cur @ [e]) names es)
      else if is_name_char c then sel_scan (cur @ [c]) names cs
      else None)"

text \<open>The id and the classes a selector asks for.\<close>

definition parse_selector :: "string \<Rightarrow> (string \<times> string list) option" where
  "parse_selector s =
     (case s of
        [] \<Rightarrow> None
      | h # rest \<Rightarrow>
          if h = CHR ''#'' \<and> name_start_ok rest
          then (case sel_scan [] [] rest of
                  Some (i # classes) \<Rightarrow> Some (i, classes)
                | _ \<Rightarrow> None)
          else None)"

definition matches :: "string \<times> string list \<Rightarrow> element \<Rightarrow> bool" where
  "matches sel e \<longleftrightarrow> el_id e = fst sel \<and> set (snd sel) \<subseteq> set (el_classes e)"

text \<open>The first element, in document order, that matches.\<close>

fun find_first :: "(nat \<rightharpoonup> element) \<Rightarrow> string \<times> string list \<Rightarrow> nat list \<Rightarrow> nat option" where
  "find_first st sel [] = None"
| "find_first st sel (a # as) =
     (case st a of
        None \<Rightarrow> find_first st sel as
      | Some e \<Rightarrow> if matches sel e then Some a else find_first st sel as)"

definition querySelector :: "(nat \<rightharpoonup> element) \<Rightarrow> nat list \<Rightarrow> string \<Rightarrow> error + nat option" where
  "querySelector st nodes s =
     (case parse_selector s of
        None \<Rightarrow> Inl SyntaxError
      | Some sel \<Rightarrow> Inr (find_first st sel nodes))"

text \<open>\<^verbatim>\<open>id.replace(/\./g, '\\.')\<close>: a backslash before every dot.\<close>

definition escape_dots :: "string \<Rightarrow> string" where
  "escape_dots s = concat (map (\<lambda>c. if c = CHR ''.'' then [CHR 0x5C, CHR ''.''] else [c]) s)"

section \<open>Snippet height\<close>

text \<open>
  The closure \<^verbatim>\<open>updateHeight\<close> of one snippet editor (\<open>host\<close> is its \<^verbatim>\<open>div\<close>). It reads the line height of the
  editor and the line count of its model when it runs, compares the height string with
  the one on the host element, and on a difference writes it, lays the editor out and,
  unless this is the initial call, rescans the scrollbar. The closure exists only for an
  editor that was created on an element, so the two \<open>None\<close> cases do not arise.
\<close>

definition updateHeight :: "bool \<Rightarrow> nat \<Rightarrow> part \<Rightarrow> part" where
  "updateHeight initial eid p =
     (case editors p eid of
        None \<Rightarrow> p
      | Some editor \<Rightarrow>
          (case store p (ed_host editor) of
             None \<Rightarrow> p
           | Some host \<Rightarrow>
               (let height = Px (max (lineCount (ed_model editor) + 1) 4 * lineHeight editor)
                in if el_height host \<noteq> height
                   then p\<lparr>store := (store p)(ed_host editor \<mapsto> host\<lparr>el_height := height\<rparr>),
                          trace := trace p @ [HeightSet (ed_host editor) height, EditorLayout eid]
                                     @ (if \<not> initial then [Rescan] else [])\<rparr>
                   else p)))"

text \<open>
  The content-change notification of the model of editor \<open>eid\<close>, whose model has \<open>n\<close>
  lines now: the listener \<^verbatim>\<open>() => updateHeight(false)\<close> runs as long as its subscription
  has not been disposed, that is, as long as it is on \<^verbatim>\<open>contentDisposables\<close>.
\<close>

definition onDidChangeModelContent :: "nat \<Rightarrow> nat \<Rightarrow> part \<Rightarrow> part" where
  "onDidChangeModelContent eid n p =
     (case editors p eid of
        None \<Rightarrow> p
      | Some editor \<Rightarrow>
          (let p' = p\<lparr>editors := (editors p)(eid \<mapsto> editor\<lparr>ed_model := (ed_model editor)\<lparr>lineCount := n\<rparr>\<rparr>)\<rparr>
           in if ContentChangeSub eid \<in> set (contentDisposables p')
              then updateHeight False eid p' else p'))"

text \<open>
  The theme-change notification: the listeners on \<^verbatim>\<open>contentDisposables\<close> restyle their
  root or hand the new theme id to their editor.
\<close>

fun theme_listeners :: "string \<Rightarrow> disposable list \<Rightarrow> part \<Rightarrow> part" where
  "theme_listeners theme [] p = p"
| "theme_listeners theme (RootStyleSub r # ds) p =
     theme_listeners theme ds (p\<lparr>trace := trace p @ [Styled r]\<rparr>)"
| "theme_listeners theme (EditorThemeSub e # ds) p =
     theme_listeners theme ds
       (case editors p e of
          None \<Rightarrow> p
        | Some editor \<Rightarrow> p\<lparr>editors := (editors p)(e \<mapsto> editor\<lparr>ed_theme := theme\<rparr>)\<rparr>)"
| "theme_listeners theme (d # ds) p = theme_listeners theme ds p"

definition onDidColorThemeChange :: "string \<Rightarrow> part \<Rightarrow> part" where
  "onDidColorThemeChange theme p = theme_listeners theme (contentDisposables p) p"

section \<open>Layout\<close>

definition compact_class :: string where
  "compact_class = ''max-height-690px''"

text \<open>\<^verbatim>\<open>classList[height <= 690 ? 'add' : 'remove']('max-height-690px')\<close>.\<close>

definition toggle_compact :: "nat \<Rightarrow> string list \<Rightarrow> string list" where
  "toggle_compact height classes =
     (if height \<le> 690
      then (if compact_class \<in> set classes then classes else classes @ [compact_class])
      else removeAll compact_class classes)"

fun editor_ids :: "disposable list \<Rightarrow> nat list" where
  "editor_ids [] = []"
| "editor_ids (CodeEditor e # ds) = e # editor_ids ds"
| "editor_ids (d # ds) = editor_ids ds"

definition layout :: "nat \<Rightarrow> nat \<Rightarrow> part \<Rightarrow> part" where
  "layout width height p =
     (let p1 = p\<lparr>content_height := Px height, content_width := Px width\<rparr>;
          p2 = (case content p1 of
                  [] \<Rightarrow> p1
                | innerContent # _ \<Rightarrow>
                    (case store p1 (root_el innerContent) of
                       None \<Rightarrow> p1
                     | Some e \<Rightarrow>
                         p1\<lparr>store := (store p1)(root_el innerContent \<mapsto>
                               e\<lparr>el_classes := toggle_compact height (el_classes e)\<rparr>)\<rparr>));
          p3 = p2\<lparr>trace := trace p2 @ map EditorLayout (editor_ids (contentDisposables p2))\<rparr>
      in p3\<lparr>trace := trace p3 @ [Rescan]\<rparr>)"

text \<open>
  The compact presentation state: the first element child of the content node carries
  the class.
\<close>

definition is_compact :: "part \<Rightarrow> bool" where
  "is_compact p =
     (case content p of
        [] \<Rightarrow> False
      | innerContent # _ \<Rightarrow>
          (case store p (root_el innerContent) of
             None \<Rightarrow> False
           | Some e \<Rightarrow> compact_class \<in> set (el_classes e)))"

section \<open>Lifecycle\<close>

text \<open>
  \<^verbatim>\<open>dispose(array)\<close> of \<^verbatim>\<open>vs/base/common/lifecycle\<close>, which is outside the file: every member
  is disposed, in order, and the caller stores the empty array it returns.
\<close>

definition dispose_list :: "disposable list \<Rightarrow> part \<Rightarrow> part" where
  "dispose_list ds p = p\<lparr>trace := trace p @ map Disposed ds\<rparr>"

definition save_current :: "part \<Rightarrow> part" where
  "save_current p =
     (case input (editor_base p) of
        Some (WalkThroughInput i) \<Rightarrow> saveTextEditorViewState (resource i) p
      | _ \<Rightarrow> p)"

definition clearInput :: "(base_editor \<Rightarrow> base_editor) \<Rightarrow> part \<Rightarrow> part" where
  "clearInput super_clearInput p =
     (let p1 = save_current p
      in p1\<lparr>editor_base := super_clearInput (editor_base p1)\<rparr>)"

definition shutdown :: "(base_editor \<Rightarrow> base_editor) \<Rightarrow> part \<Rightarrow> part" where
  "shutdown super_shutdown p =
     (let p1 = save_current p
      in p1\<lparr>editor_base := super_shutdown (editor_base p1)\<rparr>)"

definition dispose :: "(base_editor \<Rightarrow> base_editor) \<Rightarrow> part \<Rightarrow> part" where
  "dispose super_dispose p =
     (let p1 = (dispose_list (contentDisposables p) p)\<lparr>contentDisposables := []\<rparr>;
          p2 = (dispose_list (disposables p1) p1)\<lparr>disposables := []\<rparr>
      in p2\<lparr>editor_base := super_dispose (editor_base p2)\<rparr>)"

text \<open>
  \<^verbatim>\<open>setInput\<close> up to the point where it waits for \<^verbatim>\<open>input.resolve(true)\<close>: the view state
  of the current input is saved, the content disposables are disposed, the content is
  emptied, and \<^verbatim>\<open>super.setInput\<close> runs.
\<close>

definition setInput_begin :: "(walk_input \<Rightarrow> base_editor \<Rightarrow> base_editor) \<Rightarrow> walk_input \<Rightarrow> part \<Rightarrow> part" where
  "setInput_begin super_setInput i p =
     (let p1 = save_current p;
          p2 = (dispose_list (contentDisposables p1) p1)\<lparr>contentDisposables := []\<rparr>;
          p3 = p2\<lparr>content := [], trace := trace p2 @ [ContentCleared]\<rparr>
      in p3\<lparr>editor_base := super_setInput i (editor_base p3)\<rparr>)"

section \<open>Rendering and mounting a resolved document\<close>

text \<open>
  The resolved model: the lines of the main text model and the snippet models, in the
  order the resolution supplies them.
\<close>

record walk_model =
  main_lines :: "string list"
  snippets :: "snippet list"

text \<open>\<^verbatim>\<open>getLinesContent().join('\n')\<close>.\<close>

fun join_lines :: "string list \<Rightarrow> string" where
  "join_lines [] = []"
| "join_lines [l] = l"
| "join_lines (l # ls) = l @ [CHR 0x0A] @ join_lines ls"

text \<open>\<^verbatim>\<open>strings.endsWith\<close>.\<close>

definition endsWith :: "string \<Rightarrow> string \<Rightarrow> bool" where
  "endsWith haystack needle \<longleftrightarrow>
     length needle \<le> length haystack \<and>
     drop (length haystack - length needle) haystack = needle"

text \<open>
  The placeholder \<^verbatim>\<open>renderer.code\<close> returns for a snippet:
  \<^verbatim>\<open><div id="snippet-FRAGMENT" class="walkThroughEditorContainer" ></div>\<close>.
\<close>

definition snippet_id :: "snippet \<Rightarrow> string" where
  "snippet_id sn = ''snippet-'' @ snippet_fragment sn"

definition placeholder :: "snippet \<Rightarrow> element" where
  "placeholder sn =
     \<lparr>el_id = snippet_id sn, el_classes = [''walkThroughEditorContainer''], el_height = Unset\<rparr>"

text \<open>
  The run of the Markdown engine over the blocks with the part's renderer: the counter
  \<open>i\<close> of the closure goes up by one per fenced block, and reading a snippet past the end
  of the list is a \<open>TypeError\<close> (\<^verbatim>\<open>undefined.textEditorModel\<close>).
\<close>

fun render_blocks :: "snippet list \<Rightarrow> nat \<Rightarrow> md_block list \<Rightarrow> error + element list" where
  "render_blocks sns i [] = Inr []"
| "render_blocks sns i (Prose es # bs) =
     (case render_blocks sns i bs of Inl e \<Rightarrow> Inl e | Inr r \<Rightarrow> Inr (es @ r))"
| "render_blocks sns i (Fence code lang # bs) =
     (if i < length sns
      then (case render_blocks sns (Suc i) bs of
              Inl e \<Rightarrow> Inl e
            | Inr r \<Rightarrow> Inr (placeholder (sns ! i) # r))
      else Inl TypeError)"

text \<open>
  For stating what the rendering yields: the positions, in the list of rendered elements
  counted from \<open>k\<close>, at which the placeholders of the fenced blocks stand, and the
  elements that the prose contributes.
\<close>

fun fence_positions :: "nat \<Rightarrow> md_block list \<Rightarrow> nat list" where
  "fence_positions k [] = []"
| "fence_positions k (Prose es # bs) = fence_positions (k + length es) bs"
| "fence_positions k (Fence code lang # bs) = k # fence_positions (Suc k) bs"

fun prose_elements :: "md_block list \<Rightarrow> element list" where
  "prose_elements [] = []"
| "prose_elements (Prose es # bs) = es @ prose_elements bs"
| "prose_elements (Fence code lang # bs) = prose_elements bs"

text \<open>
  The characters of a fragment that the lookup reads back as written: name characters,
  and dots, which the part escapes.
\<close>

definition is_id_char :: "char \<Rightarrow> bool" where
  "is_id_char c \<longleftrightarrow> is_name_char c \<or> c = CHR ''.''"

text \<open>New elements get the next free addresses of the store.\<close>

fun alloc_elements :: "element list \<Rightarrow> part \<Rightarrow> nat list \<times> part" where
  "alloc_elements [] p = ([], p)"
| "alloc_elements (e # es) p =
     (let a = next_addr p;
          (as, p') = alloc_elements es (p\<lparr>store := (store p)(a \<mapsto> e), next_addr := Suc a\<rparr>)
      in (a # as, p'))"

fun alloc_forest :: "(element \<times> element list) list \<Rightarrow> part \<Rightarrow> root list \<times> part" where
  "alloc_forest [] p = ([], p)"
| "alloc_forest ((e, ds) # ts) p =
     (let r = next_addr p;
          (as, p1) = alloc_elements ds (p\<lparr>store := (store p)(r \<mapsto> e), next_addr := Suc r\<rparr>);
          (rs, p2) = alloc_forest ts p1
      in (\<lparr>root_el = r, descendants = as\<rparr> # rs, p2))"

text \<open>
  The body of \<^verbatim>\<open>model.snippets.forEach\<close> for the snippet with index \<open>j\<close>, once its
  placeholder \<open>host\<close> has been found: an editor is created on it and pushed, its height
  is set for the first time, the two subscriptions are pushed, and the first editor is
  focused.
\<close>

definition attach_editor :: "services \<Rightarrow> nat \<Rightarrow> nat \<Rightarrow> snippet \<Rightarrow> part \<Rightarrow> part" where
  "attach_editor sv host j sn p =
     (let eid = next_editor p;
          p1 = p\<lparr>editors := (editors p)(eid \<mapsto>
                     \<lparr>ed_host = host, ed_model = sn, lineHeight = editorLineHeight sv,
                      ed_theme = colorTheme sv\<rparr>),
                 next_editor := Suc eid,
                 contentDisposables := contentDisposables p @ [CodeEditor eid]\<rparr>;
          p2 = updateHeight True eid p1;
          p3 = p2\<lparr>contentDisposables :=
                     contentDisposables p2 @ [ContentChangeSub eid, EditorThemeSub eid]\<rparr>
      in if j = 0 then p3\<lparr>trace := trace p3 @ [EditorFocus eid]\<rparr> else p3)"

text \<open>
  The placeholder is looked up below \<open>innerContent\<close> by its escaped id. An editor cannot
  be created on \<^verbatim>\<open>null\<close>: a placeholder that is not found ends the run with a \<open>TypeError\<close>.
\<close>

definition mount_snippet :: "services \<Rightarrow> root \<Rightarrow> nat \<Rightarrow> snippet \<Rightarrow> part \<Rightarrow> error + part" where
  "mount_snippet sv innerContent j sn p =
     (case querySelector (store p) (descendants innerContent)
             (CHR ''#'' # escape_dots (snippet_id sn)) of
        Inl e \<Rightarrow> Inl e
      | Inr None \<Rightarrow> Inl TypeError
      | Inr (Some host) \<Rightarrow> Inr (attach_editor sv host j sn p))"

fun mount_snippets :: "services \<Rightarrow> root \<Rightarrow> nat \<Rightarrow> snippet list \<Rightarrow> part \<Rightarrow> error + part" where
  "mount_snippets sv innerContent j [] p = Inr p"
| "mount_snippets sv innerContent j (sn # sns) p =
     (case mount_snippet sv innerContent j sn p of
        Inl e \<Rightarrow> Inl e
      | Inr p' \<Rightarrow> mount_snippets sv innerContent (Suc j) sns p')"

text \<open>The common end of both modes: the ready callback, the rescan, the restored scroll.\<close>

definition finish_mount :: "walk_input \<Rightarrow> part \<Rightarrow> part" where
  "finish_mount i p =
     (let p1 = (if onReady i then p\<lparr>trace := trace p @ [Ready]\<rparr> else p);
          p2 = p1\<lparr>trace := trace p1 @ [Rescan]\<rparr>
      in loadTextEditorViewState (resource i) p2)"

text \<open>
  Markup mode: the parsed document replaces the children of the content node;
  \<^verbatim>\<open>decorateContent\<close> appends key labels to shortcut elements, which changes no attribute
  that is modelled.
\<close>

definition mount_markup :: "services \<Rightarrow> walk_input \<Rightarrow> walk_model \<Rightarrow> part \<Rightarrow> part" where
  "mount_markup sv i m p =
     (let (rs, p1) = alloc_forest (parse_html sv (join_lines (main_lines m))) p;
          p2 = p1\<lparr>content := rs, trace := trace p1 @ [MarkupSet, Decorated]\<rparr>
      in finish_mount i p2)"

text \<open>
  Markdown mode: the macros are expanded, the engine renders the blocks into a new
  \<open>innerContent\<close> element, which is styled, subscribed to theme changes and appended to
  the content node; then the snippets are mounted.
\<close>

definition mount_markdown :: "services \<Rightarrow> walk_input \<Rightarrow> walk_model \<Rightarrow> part \<Rightarrow> error + part" where
  "mount_markdown sv i m p =
     (case render_blocks (snippets m) 0
             (marked_blocks sv (expandMacros sv (join_lines (main_lines m)))) of
        Inl e \<Rightarrow> Inl e
      | Inr es \<Rightarrow>
          (let r = next_addr p;
               p1 = p\<lparr>store := (store p)(r \<mapsto>
                          \<lparr>el_id = [], el_classes = [''walkThroughContent''], el_height = Unset\<rparr>),
                      next_addr := Suc r\<rparr>;
               (as, p2) = alloc_elements es p1;
               innerContent = \<lparr>root_el = r, descendants = as\<rparr>;
               p3 = p2\<lparr>contentDisposables := contentDisposables p2 @ [RootStyleSub r],
                       content := content p2 @ [innerContent],
                       trace := trace p2 @ [Styled r, RootAppended r]\<rparr>
           in (case mount_snippets sv innerContent 0 (snippets m) p3 of
                 Inl e \<Rightarrow> Inl e
               | Inr p4 \<Rightarrow> Inr (finish_mount i p4))))"

text \<open>
  The continuation of \<^verbatim>\<open>setInput\<close> that runs when \<^verbatim>\<open>input.resolve(true)\<close> has delivered the
  model. Nothing in it looks at \<^verbatim>\<open>this.input\<close>.
\<close>

definition setInput_resolved :: "services \<Rightarrow> walk_input \<Rightarrow> walk_model \<Rightarrow> part \<Rightarrow> error + part" where
  "setInput_resolved sv i m p =
     (if endsWith (path (resource i)) ''.html''
      then Inr (mount_markup sv i m p)
      else mount_markdown sv i m p)"

section \<open>Clicks\<close>

text \<open>
  \<^verbatim>\<open>query.from = ...\<close> on the value \<^verbatim>\<open>JSON.parse\<close> returned, in strict mode: an object gets
  or replaces the property; an array takes the property but \<^verbatim>\<open>JSON.stringify\<close> writes only
  its elements; on \<^verbatim>\<open>null\<close> and on a primitive the assignment throws.
\<close>

fun put_property :: "string \<Rightarrow> json \<Rightarrow> (string \<times> json) list \<Rightarrow> (string \<times> json) list" where
  "put_property k v [] = [(k, v)]"
| "put_property k v ((k', v') # kvs) =
     (if k' = k then (k, v) # kvs else (k', v') # put_property k v kvs)"

definition set_from :: "string \<Rightarrow> json \<Rightarrow> error + json" where
  "set_from origin q =
     (case q of
        JObject kvs \<Rightarrow> Inr (JObject (put_property ''from'' (JString origin) kvs))
      | JArray xs \<Rightarrow> Inr (JArray xs)
      | _ \<Rightarrow> Inl TypeError)"

definition addFrom :: "services \<Rightarrow> part \<Rightarrow> uri \<Rightarrow> error + uri" where
  "addFrom sv p u =
     (if scheme u \<noteq> ''command'' then Inr u
      else (case (if query u \<noteq> [] then json_parse sv (query u) else Some (JObject [])) of
              None \<Rightarrow> Inl SyntaxError
            | Some q \<Rightarrow>
                (case input (editor_base p) of
                   Some (WalkThroughInput i) \<Rightarrow>
                     (case set_from (telemetryFrom i) q of
                        Inl e \<Rightarrow> Inl e
                      | Inr q' \<Rightarrow> Inr (u\<lparr>query := json_stringify sv q'\<rparr>))
                 | _ \<Rightarrow> Inl TypeError)))"

text \<open>\<^verbatim>\<open>this.openerService.open(this.addFrom(URI.parse(href)))\<close>.\<close>

definition open_href :: "services \<Rightarrow> string \<Rightarrow> part \<Rightarrow> error + part" where
  "open_href sv href p =
     (case addFrom sv p (uri_parse sv href) of
        Inl e \<Rightarrow> Inl e
      | Inr u \<Rightarrow> Inr (p\<lparr>trace := trace p @ [Opened u]\<rparr>))"

text \<open>\<^verbatim>\<open>haystack.indexOf(needle) >= 0\<close>.\<close>

fun contains :: "string \<Rightarrow> string \<Rightarrow> bool" where
  "contains [] needle = (needle = [])"
| "contains (c # cs) needle = (take (length needle) (c # cs) = needle \<or> contains cs needle)"

text \<open>
  A node on the path from the click target up to the document: an anchor with its
  resolved \<^verbatim>\<open>href\<close> and its \<^verbatim>\<open>hash\<close>, a button with its \<^verbatim>\<open>data-href\<close> attribute, the content
  node (the \<^verbatim>\<open>currentTarget\<close> of the listener), or any other node.
\<close>

datatype dom_node =
    HTMLAnchorElement string string
  | HTMLButtonElement "string option"
  | ContentNode
  | OtherNode

text \<open>
  What the handler reads from the window: the \<^verbatim>\<open>href\<close> of the base element or of the
  location, the top of the content node, and the top of the element at an address.
\<close>

record window =
  base_href :: string
  container_top :: int
  rect_top :: "nat \<Rightarrow> int"

text \<open>The elements below the content node, in document order.\<close>

definition content_nodes :: "part \<Rightarrow> nat list" where
  "content_nodes p = concat (map (\<lambda>r. root_el r # descendants r) (content p))"

text \<open>
  The click listener: the loop over the ancestors of the target. \<^verbatim>\<open>preventDefault\<close> is
  called in the anchor branch only, after the branch has run without an exception.
\<close>

fun click :: "services \<Rightarrow> window \<Rightarrow> dom_node list \<Rightarrow> part \<Rightarrow> error + part" where
  "click sv w [] p = Inr p"
| "click sv w (HTMLAnchorElement href hash # nodes) p =
     (if href \<noteq> [] then
        (case (if contains href (base_href w) \<and> hash \<noteq> [] then
                 (case querySelector (store p) (content_nodes p) hash of
                    Inl e \<Rightarrow> Inl e
                  | Inr None \<Rightarrow> Inr p
                  | Inr (Some scrollTarget) \<Rightarrow>
                      Inr (p\<lparr>scrollbar := (scrollbar p)
                               \<lparr>scrollTop := rect_top w scrollTarget - container_top w\<rparr>,
                             trace := trace p @ [ScrollUpdated]\<rparr>))
               else open_href sv href p) of
           Inl e \<Rightarrow> Inl e
         | Inr p' \<Rightarrow> Inr (p'\<lparr>trace := trace p' @ [DefaultPrevented]\<rparr>))
      else click sv w nodes p)"
| "click sv w (HTMLButtonElement data_href # nodes) p =
     (case data_href of
        None \<Rightarrow> Inr p
      | Some href \<Rightarrow> if href \<noteq> [] then open_href sv href p else Inr p)"
| "click sv w (ContentNode # nodes) p = Inr p"
| "click sv w (OtherNode # nodes) p = click sv w nodes p"


section \<open>The part as a transition system\<close>

text \<open>The methods of \<^verbatim>\<open>BaseEditor\<close> that the part calls through \<^verbatim>\<open>super\<close>.\<close>

record base_class =
  super_setInput :: "walk_input \<Rightarrow> base_editor \<Rightarrow> base_editor"
  super_clearInput :: "base_editor \<Rightarrow> base_editor"
  super_shutdown :: "base_editor \<Rightarrow> base_editor"
  super_dispose :: "base_editor \<Rightarrow> base_editor"

text \<open>
  What the host, the resolution, the models, the theme service and the user do to the
  part, one event at a time. A call of \<^verbatim>\<open>setInput\<close> runs up to its suspension; the
  resolution of a call runs its continuation, whenever it arrives. A run stops at the
  first exception.
\<close>

datatype step =
    Call walk_input
  | Resolved walk_input walk_model
  | Layout nat nat
  | ClearInput
  | Shutdown
  | Dispose
  | ContentChanged nat nat
  | ThemeChanged string
  | Click window "dom_node list"
  | Placed nat
  | Scrolled view_state

fun exec :: "services \<Rightarrow> base_class \<Rightarrow> step \<Rightarrow> part \<Rightarrow> error + part" where
  "exec sv b (Call i) p = Inr (setInput_begin (super_setInput b) i p)"
| "exec sv b (Resolved i m) p = setInput_resolved sv i m p"
| "exec sv b (Layout w h) p = Inr (layout w h p)"
| "exec sv b ClearInput p = Inr (clearInput (super_clearInput b) p)"
| "exec sv b Shutdown p = Inr (shutdown (super_shutdown b) p)"
| "exec sv b Dispose p = Inr (dispose (super_dispose b) p)"
| "exec sv b (ContentChanged eid n) p = Inr (onDidChangeModelContent eid n p)"
| "exec sv b (ThemeChanged theme) p = Inr (onDidColorThemeChange theme p)"
| "exec sv b (Click w nodes) p = click sv w nodes p"
| "exec sv b (Placed k) p = Inr (at_position k p)"
| "exec sv b (Scrolled S) p = Inr (scrolled S p)"

fun run :: "services \<Rightarrow> base_class \<Rightarrow> step list \<Rightarrow> part \<Rightarrow> error + part" where
  "run sv b [] p = Inr p"
| "run sv b (s # steps) p =
     (case exec sv b s p of
        Inl e \<Rightarrow> Inl e
      | Inr p' \<Rightarrow> run sv b steps p')"

text \<open>The disposables that a trace disposes, in order.\<close>

fun disposals :: "event list \<Rightarrow> disposable list" where
  "disposals [] = []"
| "disposals (Disposed d # evs) = d # disposals evs"
| "disposals (ev # evs) = disposals evs"

text \<open>
  The bookkeeping behind the two disposable lists: a content disposable is named after
  the editor or the root it belongs to, and those are numbered below the next free
  number; nothing is on a list twice or on a list after its disposal.
\<close>

definition numbered :: "part \<Rightarrow> disposable \<Rightarrow> bool" where
  "numbered p d =
     (case d of
        Scrollbar \<Rightarrow> False
      | CodeEditor e \<Rightarrow> e < next_editor p
      | RootStyleSub r \<Rightarrow> r < next_addr p
      | ContentChangeSub e \<Rightarrow> e < next_editor p
      | EditorThemeSub e \<Rightarrow> e < next_editor p)"


section \<open>Relations between a part and a later one\<close>

text \<open>
  Two relations used to follow the bookkeeping of the disposables through the operations:
  in both the trace of the later part extends that of the earlier one by events that
  dispose nothing, and the counters of addresses and editors do not decrease.
\<close>

text \<open>An operation that disposes nothing and pushes nothing keeps the bookkeeping.\<close>

definition quiet :: "part \<Rightarrow> part \<Rightarrow> bool" where
  "quiet p q \<longleftrightarrow>
     (\<exists>ts. trace q = trace p @ ts \<and> disposals ts = []) \<and>
     contentDisposables q = contentDisposables p \<and> disposables q = disposables p \<and>
     next_addr p \<le> next_addr q \<and> next_editor p \<le> next_editor q"

text \<open>Pushing fresh disposables.\<close>

definition pushes :: "part \<Rightarrow> part \<Rightarrow> bool" where
  "pushes p q \<longleftrightarrow>
     (\<exists>ts. trace q = trace p @ ts \<and> disposals ts = []) \<and> disposables q = disposables p \<and>
     next_addr p \<le> next_addr q \<and> next_editor p \<le> next_editor q \<and>
     (\<exists>ds. contentDisposables q = contentDisposables p @ ds \<and> distinct ds \<and>
           list_all (numbered q) ds \<and> list_all (\<lambda>d. \<not> numbered p d) ds)"

section \<open>Example collaborators\<close>

text \<open>
  A concrete part and concrete services, for evaluating the definitions: a fresh part as
  \<^verbatim>\<open>createEditor\<close> leaves it; a keybinding service that binds only \<^verbatim>\<open>a.b\<close>; a Markdown
  engine that finds a heading and two fenced blocks in every document that is not empty; an HTML parser for
  documents of one element, which gets the text as its id; a URI parser that
  splits at the first colon and the first question mark; a JSON parser that knows the
  empty object and one array.
\<close>

definition fresh_part :: part where
  "fresh_part =
     \<lparr>editor_base = \<lparr>input = None, position = None\<rparr>, memento = None,
      scrollbar = \<lparr>scrollTop = 0, scrollLeft = 0\<rparr>,
      content_height = Unset, content_width = Unset, content = [], store = Map.empty,
      next_addr = 0, editors = Map.empty, next_editor = 0, contentDisposables = [],
      disposables = [Scrollbar], trace = []\<rparr>"

definition example_uri_parse :: "string \<Rightarrow> uri" where
  "example_uri_parse s =
     (let rest = drop 1 (dropWhile (\<lambda>c. c \<noteq> CHR '':'') s)
      in \<lparr>scheme = takeWhile (\<lambda>c. c \<noteq> CHR '':'') s, authority = [],
          path = takeWhile (\<lambda>c. c \<noteq> CHR ''?'') rest,
          query = drop 1 (dropWhile (\<lambda>c. c \<noteq> CHR ''?'') rest), fragment = []\<rparr>)"

definition example_services :: services where
  "example_services =
     \<lparr>lookupKeybindings = (\<lambda>c. if c = ''a.b'' then [7] else []),
      getLabelFor = (\<lambda>k. ''Ctrl+K''),
      colorTheme = ''vs'', editorLineHeight = 19,
      marked_blocks = (\<lambda>s. if s = [] then []
                           else [Prose [\<lparr>el_id = ''section2'', el_classes = [], el_height = Unset\<rparr>],
                                 Fence ''let x = 1;'' ''js'', Fence ''let y: number;'' ''ts'']),
      parse_html = (\<lambda>s. [(\<lparr>el_id = s, el_classes = [], el_height = Unset\<rparr>, [])]),
      uri_parse = example_uri_parse,
      json_parse = (\<lambda>s. if s = ''{}'' then Some (JObject [])
                         else if s = ''[1]'' then Some (JArray [JNumber 1]) else None),
      json_stringify = (\<lambda>j. case j of
                              JObject [(k, JString v)] \<Rightarrow> ''{'' @ k @ '':'' @ v @ ''}''
                            | JArray [JNumber n] \<Rightarrow> ''[1]''
                            | _ \<Rightarrow> [])\<rparr>"

definition doc_uri :: "string \<Rightarrow> uri" where
  "doc_uri p = \<lparr>scheme = ''file'', authority = '''', path = p, query = '''', fragment = ''''\<rparr>"

definition example_input :: "string \<Rightarrow> walk_input" where
  "example_input p = \<lparr>resource = doc_uri p, onReady = True, telemetryFrom = ''walkThrough''\<rparr>"

definition example_snippet :: snippet where
  "example_snippet = \<lparr>snippet_fragment = ''0.js'', lineCount = 7\<rparr>"

definition example_model :: walk_model where
  "example_model =
     \<lparr>main_lines = [''# Tour'', ''press kb(a.b)''],
      snippets = [example_snippet, \<lparr>snippet_fragment = ''1.ts'', lineCount = 1\<rparr>]\<rparr>"

text \<open>
  A part at position 1 on which \<^verbatim>\<open>setInput\<close> was called for \<^verbatim>\<open>/a.md\<close> and whose continuation
  has rendered \<open>example_model\<close> into a root with a heading and two placeholders, before
  any editor is created; the same part after the first editor has been attached; and
  after the whole document has been mounted.
\<close>

definition example_inner :: root where
  "example_inner = \<lparr>root_el = 0, descendants = [1, 2, 3]\<rparr>"

definition example_rendered :: part where
  "example_rendered =
     \<lparr>editor_base = \<lparr>input = Some (WalkThroughInput (example_input ''/a.md'')),
                         position = Some 1\<rparr>,
      memento = None,
      scrollbar = \<lparr>scrollTop = 0, scrollLeft = 0\<rparr>,
      content_height = Unset, content_width = Unset,
      content = [example_inner],
      store = [0 \<mapsto> \<lparr>el_id = [], el_classes = [''walkThroughContent''], el_height = Unset\<rparr>,
               1 \<mapsto> \<lparr>el_id = ''section2'', el_classes = [], el_height = Unset\<rparr>,
               2 \<mapsto> \<lparr>el_id = ''snippet-0.js'', el_classes = [''walkThroughEditorContainer''],
                      el_height = Unset\<rparr>,
               3 \<mapsto> \<lparr>el_id = ''snippet-1.ts'', el_classes = [''walkThroughEditorContainer''],
                      el_height = Unset\<rparr>],
      next_addr = 4, editors = Map.empty, next_editor = 0,
      contentDisposables = [RootStyleSub 0],
      disposables = [Scrollbar],
      trace = [ContentCleared, Styled 0, RootAppended 0]\<rparr>"

definition example_attached :: part where
  "example_attached = attach_editor example_services 2 0 example_snippet example_rendered"

definition example_mounted :: part where
  "example_mounted =
     finish_mount (example_input ''/a.md'')
       (attach_editor example_services 3 1 \<lparr>snippet_fragment = ''1.ts'', lineCount = 1\<rparr>
          example_attached)"

text \<open>Base-class methods for the examples: the input is stored, or dropped.\<close>

definition example_base :: base_class where
  "example_base =
     \<lparr>super_setInput = (\<lambda>i b. b\<lparr>input := Some (WalkThroughInput i)\<rparr>),
      super_clearInput = (\<lambda>b. b\<lparr>input := None\<rparr>),
      super_shutdown = (\<lambda>b. b),
      super_dispose = (\<lambda>b. b)\<rparr>"


section \<open>Theorems\<close>

subsection \<open>The view-state store\<close>







subsection \<open>Macro expansion\<close>

lemma kb_chars[simp]: "is_kb_char CHR ''k''" "is_kb_char CHR ''b''"
  "\<not> is_kb_char CHR ''(''" "\<not> is_kb_char CHR '')''"
  by (simp_all add: is_kb_char_def)

lemma match_kb_occurrence:
  assumes "kb \<noteq> []" "list_all is_kb_char kb"
  shows "match_kb (''kb('' @ kb @ '')'' @ post) = Some (kb, post)"
proof -
  have all: "\<forall>x\<in>set kb. is_kb_char x" using assms(2) by (simp add: list_all_iff)
  have t: "takeWhile is_kb_char (kb @ CHR '')'' # post) = kb"
    using all by (simp add: takeWhile_append)
  have d: "dropWhile is_kb_char (kb @ CHR '')'' # post) = CHR '')'' # post"
    using all by (simp add: dropWhile_append)
  show ?thesis using t d assms(1) by (simp add: match_kb_def)
qed

lemma match_kb_extend:
  assumes "match_kb s = Some (kb, after)"
  shows "match_kb (s @ t) = Some (kb, after @ t)"
proof -
  from assms obtain k b p rest where s: "s = k # b # p # rest"
    by (auto simp: match_kb_def split: list.splits)
  from assms s have d: "dropWhile is_kb_char rest = CHR '')'' # after"
    and tk: "takeWhile is_kb_char rest = kb" and ne: "kb \<noteq> []"
    and hd: "(k = CHR ''k'' \<or> k = CHR ''K'') \<and> (b = CHR ''b'' \<or> b = CHR ''B'') \<and> p = CHR ''(''"
    by (auto simp: match_kb_def split: list.splits if_splits)
  from d have "\<not> (\<forall>x\<in>set rest. is_kb_char x)"
    by (metis dropWhile_eq_Nil_conv list.distinct(1))
  then obtain x where x: "x \<in> set rest" "\<not> is_kb_char x" by blast
  have d': "dropWhile is_kb_char (rest @ t) = CHR '')'' # after @ t"
    using d dropWhile_append1[where P=is_kb_char, OF x] by simp
  have t': "takeWhile is_kb_char (rest @ t) = kb"
    using tk takeWhile_append1[where P=is_kb_char, OF x] by simp
  show ?thesis using s d' t' ne hd by (simp add: match_kb_def)
qed

lemma match_kb_no_straddle:
  assumes "match_kb s = None" "s \<noteq> []"
  shows "match_kb (s @ ''kb('' @ t) = None"
proof (cases s)
  case Nil
  with assms show ?thesis by simp
next
  case (Cons k s1)
  show ?thesis
  proof (cases s1)
    case Nil
    with Cons show ?thesis by (simp add: match_kb_def)
  next
    case (Cons b s2)
    note s1 = this
    show ?thesis
    proof (cases s2)
      case Nil
      with s1 \<open>s = k # s1\<close> show ?thesis by (simp add: match_kb_def)
    next
      case (Cons p rest)
      with s1 \<open>s = k # s1\<close> have s: "s = k # b # p # rest" by simp
      show ?thesis
      proof (cases "(k = CHR ''k'' \<or> k = CHR ''K'') \<and> (b = CHR ''b'' \<or> b = CHR ''B'') \<and> p = CHR ''(''")
        case False
        with s show ?thesis by (auto simp: match_kb_def)
      next
        case True
        show ?thesis
        proof (cases "\<forall>x\<in>set rest. is_kb_char x")
          case all: True
          then have "dropWhile is_kb_char (rest @ ''kb('' @ t) = CHR ''('' # t"
            by (simp add: dropWhile_append)
          with s True show ?thesis by (simp add: match_kb_def)
        next
          case nall: False
          then obtain x where x: "x \<in> set rest" "\<not> is_kb_char x" by blast
          have d: "dropWhile is_kb_char (rest @ ''kb('' @ t)
                        = dropWhile is_kb_char rest @ ''kb('' @ t"
            and tk: "takeWhile is_kb_char (rest @ ''kb('' @ t) = takeWhile is_kb_char rest"
            using dropWhile_append1[where P=is_kb_char, OF x] takeWhile_append1[where P=is_kb_char, OF x] by simp_all
          from nall obtain c after where dc: "dropWhile is_kb_char rest = c # after"
            by (metis dropWhile_eq_Nil_conv list.exhaust)
          from assms(1) s True dc
          have "\<not> (takeWhile is_kb_char rest \<noteq> [] \<and> c = CHR '')'')"
            by (auto simp: match_kb_def split: if_splits)
          with s True d tk dc show ?thesis by (auto simp: match_kb_def)
        qed
      qed
    qed
  qed
qed

lemma expandMacros_append_occurrence:
  assumes u: "u = ''kb('' @ t"
  shows "expandMacros sv (pre @ u) = expandMacros sv pre @ expandMacros sv u"
proof (induction sv pre rule: expandMacros.induct)
  case (1 sv)
  then show ?case by simp
next
  case (2 sv c cs)
  show ?case
  proof (cases "match_kb (c # cs)")
    case None
    then have "match_kb ((c # cs) @ u) = None"
      unfolding u by (rule match_kb_no_straddle) simp
    then have "expandMacros sv ((c # cs) @ u) = c # expandMacros sv (cs @ u)"
      by simp
    with None "2.IH" show ?thesis by simp
  next
    case (Some m)
    obtain kb after where m: "m = (kb, after)" by (cases m)
    with Some have e: "match_kb ((c # cs) @ u) = Some (kb, after @ u)"
      using match_kb_extend[of "c # cs" kb after u] by simp
    then have "expandMacros sv ((c # cs) @ u) = shortcut_span sv kb @ expandMacros sv (after @ u)"
      by simp
    with Some m e "2.IH" show ?thesis by simp
  qed
qed

text \<open>
  C9. Every occurrence \<^verbatim>\<open>kb(commandId)\<close> in the body, with a command made of letters, digits,
  dots and hyphens, is replaced by the shortcut element, and the text before and after
  it is expanded on its own. The element holds the fixed label \<^verbatim>\<open>unbound\<close> when the lookup
  yields no binding and the label of the first binding otherwise. The expansion is a
  total function: no input makes it fail.
\<close>

theorem expandMacros_kb:
  assumes "kb \<noteq> []" "list_all is_kb_char kb"
  shows "expandMacros sv (pre @ ''kb('' @ kb @ '')'' @ post)
         = expandMacros sv pre @ shortcut_span sv kb @ expandMacros sv post \<and>
         shortcut_span sv kb
         = ''<span class='' @ [CHR 0x22] @ ''shortcut'' @ [CHR 0x22] @ ''>'' @
           (if lookupKeybindings sv kb = [] then ''unbound''
            else getLabelFor sv (hd (lookupKeybindings sv kb))) @ ''</span>''"
proof -
  have "expandMacros sv (''kb('' @ kb @ '')'' @ post)
        = shortcut_span sv kb @ expandMacros sv post"
    using match_kb_occurrence[OF assms, of post] by simp
  moreover have "expandMacros sv (pre @ ''kb('' @ kb @ '')'' @ post)
        = expandMacros sv pre @ expandMacros sv (''kb('' @ kb @ '')'' @ post)"
    by (rule expandMacros_append_occurrence) simp
  ultimately show ?thesis
    by (simp add: shortcut_span_def UNBOUND_COMMAND_def split: list.splits)
qed

theorem expandMacros_kb_witness:
  "''foo.bar'' \<noteq> [] \<and> list_all is_kb_char ''foo.bar'' \<and>
   expandMacros example_services ''press kb(foo.bar) or kb(a.b)''
   = ''press <span class='' @ [CHR 0x22] @ ''shortcut'' @ [CHR 0x22] @ ''>unbound</span> or <span class=''
       @ [CHR 0x22] @ ''shortcut'' @ [CHR 0x22] @ ''>Ctrl+K</span>''"
  using expandMacros_kb[of "''foo.bar''" example_services "''press ''" "'' or kb(a.b)''"]
    expandMacros_kb[of "''a.b''" example_services "'' or ''" "''''"]
  by (simp add: is_kb_char_def example_services_def match_kb_def)

subsection \<open>The example document, evaluated\<close>

lemmas sel_eval = querySelector_def parse_selector_def escape_dots_def snippet_id_def
  is_name_char_def is_digit_def is_hex_digit_def matches_def placeholder_def

lemma ex_begin:
  "setInput_begin (super_setInput example_base) (example_input ''/a.md'') (at_position 1 fresh_part)
   = fresh_part\<lparr>editor_base := \<lparr>input = Some (WalkThroughInput (example_input ''/a.md'')),
                         position = Some 1\<rparr>, trace := [ContentCleared]\<rparr>"
  by (simp add: setInput_begin_def save_current_def at_position_def fresh_part_def Let_def
        dispose_list_def example_base_def)

lemma ex_render:
  "render_blocks (snippets example_model) 0
     (marked_blocks example_services (expandMacros example_services (join_lines (main_lines example_model))))
   = Inr [\<lparr>el_id = ''section2'', el_classes = [], el_height = Unset\<rparr>,
          \<lparr>el_id = ''snippet-0.js'', el_classes = [''walkThroughEditorContainer''], el_height = Unset\<rparr>,
          \<lparr>el_id = ''snippet-1.ts'', el_classes = [''walkThroughEditorContainer''], el_height = Unset\<rparr>]"
  by (simp add: example_model_def example_services_def example_snippet_def placeholder_def snippet_id_def
        match_kb_def is_kb_char_def)

lemma ex_q0:
  "mount_snippet example_services example_inner 0 example_snippet example_rendered
   = Inr example_attached"
  by (simp add: mount_snippet_def example_attached_def sel_eval example_inner_def
        example_rendered_def example_snippet_def)

lemma ex_attached_store:
  "store example_attached
   = [0 \<mapsto> \<lparr>el_id = [], el_classes = [''walkThroughContent''], el_height = Unset\<rparr>,
      1 \<mapsto> \<lparr>el_id = ''section2'', el_classes = [], el_height = Unset\<rparr>,
      2 \<mapsto> \<lparr>el_id = ''snippet-0.js'', el_classes = [''walkThroughEditorContainer''],
             el_height = Unset\<rparr>,
      3 \<mapsto> \<lparr>el_id = ''snippet-1.ts'', el_classes = [''walkThroughEditorContainer''],
             el_height = Unset\<rparr>,
      2 \<mapsto> \<lparr>el_id = ''snippet-0.js'', el_classes = [''walkThroughEditorContainer''],
             el_height = Px 152\<rparr>]"
  by (simp add: example_attached_def attach_editor_def updateHeight_def Let_def example_rendered_def
        example_snippet_def example_services_def)

lemma example_attached_fields:
  "editors example_attached 0
     = Some \<lparr>ed_host = 2, ed_model = example_snippet, lineHeight = 19, ed_theme = ''vs''\<rparr>"
  "contentDisposables example_attached
     = [RootStyleSub 0, CodeEditor 0, ContentChangeSub 0, EditorThemeSub 0]"
  "trace example_attached
     = [ContentCleared, Styled 0, RootAppended 0, HeightSet 2 (Px 152), EditorLayout 0,
        EditorFocus 0]"
  "trace example_rendered = [ContentCleared, Styled 0, RootAppended 0]"
  "next_editor example_rendered = 0"
  by (simp_all add: example_attached_def attach_editor_def updateHeight_def Let_def
        example_rendered_def example_snippet_def example_services_def)

lemma example_snippet_fields:
  "lineCount example_snippet = 7" "snippet_fragment example_snippet = ''0.js''"
  by (simp_all add: example_snippet_def)

lemma example_services_fields:
  "editorLineHeight example_services = 19" "colorTheme example_services = ''vs''"
  "parse_html example_services s = [(\<lparr>el_id = s, el_classes = [], el_height = Unset\<rparr>, [])]"
  "marked_blocks example_services [] = []"
  "uri_parse example_services = example_uri_parse"
  by (simp_all add: example_services_def)

lemma example_input_fields:
  "resource (example_input p) = doc_uri p" "onReady (example_input p)"
  "telemetryFrom (example_input p) = ''walkThrough''" "path (doc_uri p) = p"
  by (simp_all add: example_input_def doc_uri_def)

lemma example_base_fields:
  "super_setInput example_base i b = b\<lparr>input := Some (WalkThroughInput i)\<rparr>"
  "super_clearInput example_base b = b\<lparr>input := None\<rparr>"
  "super_shutdown example_base b = b" "super_dispose example_base b = b"
  by (simp_all add: example_base_def)

lemma ex_q1:
  "mount_snippet example_services example_inner 1 \<lparr>snippet_fragment = ''1.ts'', lineCount = 1\<rparr>
     example_attached
   = Inr (attach_editor example_services 3 1 \<lparr>snippet_fragment = ''1.ts'', lineCount = 1\<rparr>
            example_attached)"
  by (simp add: mount_snippet_def sel_eval example_inner_def ex_attached_store)

lemma ex_mount_markdown:
  "mount_markdown example_services (example_input ''/a.md'') example_model
     (fresh_part\<lparr>editor_base := \<lparr>input = Some (WalkThroughInput (example_input ''/a.md'')),
                         position = Some 1\<rparr>, trace := [ContentCleared]\<rparr>)
   = Inr example_mounted"
proof -
  have r: "(fresh_part\<lparr>editor_base := \<lparr>input = Some (WalkThroughInput (example_input ''/a.md'')),
                         position = Some 1\<rparr>, trace := [ContentCleared],
        store := [0 \<mapsto> \<lparr>el_id = [], el_classes = [''walkThroughContent''], el_height = Unset\<rparr>,
               1 \<mapsto> \<lparr>el_id = ''section2'', el_classes = [], el_height = Unset\<rparr>,
               2 \<mapsto> \<lparr>el_id = ''snippet-0.js'', el_classes = [''walkThroughEditorContainer''],
                      el_height = Unset\<rparr>,
               3 \<mapsto> \<lparr>el_id = ''snippet-1.ts'', el_classes = [''walkThroughEditorContainer''],
                      el_height = Unset\<rparr>],
        next_addr := 4, contentDisposables := [RootStyleSub 0], content := [example_inner],
        trace := [ContentCleared, Styled 0, RootAppended 0]\<rparr>) = example_rendered"
    by (simp add: fresh_part_def example_rendered_def)
  have s: "snippets example_model = [example_snippet, \<lparr>snippet_fragment = ''1.ts'', lineCount = 1\<rparr>]"
    by (simp add: example_model_def)
  have m: "mount_snippets example_services example_inner 0 (snippets example_model) example_rendered
        = Inr (attach_editor example_services 3 1 \<lparr>snippet_fragment = ''1.ts'', lineCount = 1\<rparr>
                 example_attached)"
    by (simp add: s ex_q0 ex_q1 One_nat_def[symmetric] del: One_nat_def)
  show ?thesis
    unfolding mount_markdown_def ex_render
    apply (simp add: Let_def fresh_part_def One_nat_def[symmetric] del: One_nat_def)
    apply (simp only: example_inner_def[symmetric])
    using r m apply (simp add: fresh_part_def example_mounted_def)
    done
qed

lemma ex_markdown: "\<not> endsWith (path (resource (example_input ''/a.md''))) ''.html''"
  by (simp add: endsWith_def example_input_def doc_uri_def)


lemma example_mounted_fields:
  "trace example_mounted
     = [ContentCleared, Styled 0, RootAppended 0, HeightSet 2 (Px 152), EditorLayout 0,
        EditorFocus 0, HeightSet 3 (Px 76), EditorLayout 1, Ready, Rescan]"
  "contentDisposables example_mounted
     = [RootStyleSub 0, CodeEditor 0, ContentChangeSub 0, EditorThemeSub 0,
        CodeEditor 1, ContentChangeSub 1, EditorThemeSub 1]"
  "disposables example_mounted = [Scrollbar]"
  "content example_mounted = [example_inner]"
  "store example_mounted 0
     = Some \<lparr>el_id = [], el_classes = [''walkThroughContent''], el_height = Unset\<rparr>"
  "store example_mounted 1 = Some \<lparr>el_id = ''section2'', el_classes = [], el_height = Unset\<rparr>"
  "scrollbar example_mounted = \<lparr>scrollTop = 0, scrollLeft = 0\<rparr>"
  "editor_base example_mounted
     = \<lparr>input = Some (WalkThroughInput (example_input ''/a.md'')), position = Some 1\<rparr>"
  "memento example_mounted = None"
  "editors example_mounted 0
     = Some \<lparr>ed_host = 2, ed_model = example_snippet, lineHeight = 19, ed_theme = ''vs''\<rparr>"
  "editors example_mounted 1
     = Some \<lparr>ed_host = 3, ed_model = \<lparr>snippet_fragment = ''1.ts'', lineCount = 1\<rparr>,
              lineHeight = 19, ed_theme = ''vs''\<rparr>"
  by (simp_all add: example_mounted_def finish_mount_def loadTextEditorViewState_def
        lookupViewState_def example_attached_def attach_editor_def updateHeight_def Let_def
        example_rendered_def example_snippet_def example_services_def example_input_def)

subsection \<open>Snippet height\<close>

lemma updateHeight_sets:
  assumes "editors p eid = Some ed" "store p (ed_host ed) = Some host"
  shows "\<exists>host'. store (updateHeight initial eid p) (ed_host ed) = Some host' \<and>
           el_height host' = Px (max (lineCount (ed_model ed) + 1) 4 * lineHeight ed)"
  using assms by (simp add: updateHeight_def Let_def)

lemma updateHeight_editors [simp]: "editors (updateHeight initial eid p) = editors p"
  by (simp add: updateHeight_def Let_def split: option.splits)

lemma updateHeight_contentDisposables [simp]:
  "contentDisposables (updateHeight initial eid p) = contentDisposables p"
  by (simp add: updateHeight_def Let_def split: option.splits)

lemma updateHeight_initial_trace:
  "\<exists>ts. trace (updateHeight True eid p) = trace p @ ts \<and> Rescan \<notin> set ts"
  by (simp add: updateHeight_def Let_def split: option.splits)

lemma mount_snippet_SomeD:
  assumes "mount_snippet sv rt j sn p = Inr p'"
  obtains host where
    "querySelector (store p) (descendants rt) (CHR ''#'' # escape_dots (snippet_id sn)) = Inr (Some host)"
    "p' = attach_editor sv host j sn p"
  using assms by (auto simp: mount_snippet_def split: sum.splits option.splits)


lemma attach_editor_trace:
  "\<exists>ts. trace (attach_editor sv host j sn p) = trace p @ ts \<and> Rescan \<notin> set ts"
  by (simp add: attach_editor_def updateHeight_def Let_def split: option.splits)





text \<open>
  C6. Mounting a snippet, which applies its height for the first time, adds no scrollbar
  rescan to the trace. A content change that changes the height adds exactly the new
  height, the layout of the editor and then the rescan, in this order.
\<close>

theorem rescan_only_after_mount:
  "(mount_snippet sv rt j sn p = Inr p' \<longrightarrow>
      (\<exists>ts. trace p' = trace p @ ts \<and> Rescan \<notin> set ts)) \<and>
   (editors q eid = Some ed \<and> store q (ed_host ed) = Some el \<and>
    ContentChangeSub eid \<in> set (contentDisposables q) \<and>
    el_height el \<noteq> Px (max (n + 1) 4 * lineHeight ed) \<longrightarrow>
      trace (onDidChangeModelContent eid n q)
      = trace q @ [HeightSet (ed_host ed) (Px (max (n + 1) 4 * lineHeight ed)),
                   EditorLayout eid, Rescan])"
proof (intro conjI impI)
  assume m: "mount_snippet sv rt j sn p = Inr p'"
  then obtain host where p': "p' = attach_editor sv host j sn p"
    by (rule mount_snippet_SomeD)
  show "\<exists>ts. trace p' = trace p @ ts \<and> Rescan \<notin> set ts"
    unfolding p' by (rule attach_editor_trace)
next
  assume "editors q eid = Some ed \<and> store q (ed_host ed) = Some el \<and>
    ContentChangeSub eid \<in> set (contentDisposables q) \<and>
    el_height el \<noteq> Px (max (n + 1) 4 * lineHeight ed)"
  then show "trace (onDidChangeModelContent eid n q)
      = trace q @ [HeightSet (ed_host ed) (Px (max (n + 1) 4 * lineHeight ed)),
                   EditorLayout eid, Rescan]"
    by (simp add: onDidChangeModelContent_def updateHeight_def Let_def)
qed

theorem rescan_only_after_mount_witness:
  "mount_snippet example_services example_inner 0 example_snippet example_rendered
     = Inr example_attached \<and>
   trace example_attached
     = trace example_rendered @ [HeightSet 2 (Px 152), EditorLayout 0, EditorFocus 0] \<and>
   ContentChangeSub 0 \<in> set (contentDisposables example_attached) \<and>
   trace (onDidChangeModelContent 0 1 example_attached)
     = trace example_attached @ [HeightSet 2 (Px 76), EditorLayout 0, Rescan]"
  using rescan_only_after_mount[where sv = example_services and rt = example_inner and j = 0
      and sn = example_snippet and p = example_rendered and p' = example_attached
      and q = example_attached and eid = 0 and n = 1
      and ed = "\<lparr>ed_host = 2, ed_model = example_snippet, lineHeight = 19, ed_theme = ''vs''\<rparr>"
      and el = "\<lparr>el_id = ''snippet-0.js'', el_classes = [''walkThroughEditorContainer''],
                 el_height = Px 152\<rparr>"]
  by (simp add: ex_q0 example_attached_fields ex_attached_store example_snippet_fields
        example_services_fields Let_def)

subsection \<open>Layout\<close>

lemma set_editor_ids: "set (editor_ids ds) = {e. CodeEditor e \<in> set ds}"
  by (induction ds rule: editor_ids.induct) auto

lemma layout_trace:
  "trace (layout w h p) = trace p @ map EditorLayout (editor_ids (contentDisposables p)) @ [Rescan]"
  by (simp add: layout_def Let_def split: list.splits option.splits)

lemma layout_compact:
  "content p = r # rs \<Longrightarrow> store p (root_el r) = Some e \<Longrightarrow>
   is_compact (layout w h p) \<longleftrightarrow> h \<le> 690"
  by (simp add: layout_def is_compact_def Let_def toggle_compact_def)

lemma layout_empty: "content p = [] \<Longrightarrow> \<not> is_compact (layout w h p)"
  by (simp add: layout_def is_compact_def Let_def)

text \<open>
  C7, as the code has it. The compact class is toggled on the first element child of the
  content node: when there is one, \<open>layout w 690\<close> leaves it compact and \<open>layout w 691\<close>
  does not; when the content node has no child, no compact state results at any height.
  Every call writes the pixel width and height on the content node, lays out every editor
  on \<^verbatim>\<open>contentDisposables\<close>, and ends with the one rescan of the call.
\<close>

theorem layout_threshold:
  "(content p = r # rs \<and> store p (root_el r) = Some e \<longrightarrow>
      is_compact (layout w 690 p) \<and> \<not> is_compact (layout w 691 p) \<and>
      (is_compact (layout w h p) \<longleftrightarrow> h \<le> 690)) \<and>
   (content p = [] \<longrightarrow> \<not> is_compact (layout w h p)) \<and>
   content_width (layout w h p) = Px w \<and> content_height (layout w h p) = Px h \<and>
   trace (layout w h p)
     = trace p @ map EditorLayout (editor_ids (contentDisposables p)) @ [Rescan] \<and>
   set (editor_ids (contentDisposables p)) = {e. CodeEditor e \<in> set (contentDisposables p)} \<and>
   count_list (drop (length (trace p)) (trace (layout w h p))) Rescan = 1"
proof -
  have c: "count_list (map EditorLayout xs) Rescan = 0" for xs
    by (induction xs) auto
  have "content_width (layout w h p) = Px w \<and> content_height (layout w h p) = Px h"
    by (simp add: layout_def Let_def split: list.splits option.splits)
  then show ?thesis
    using layout_compact[of p r rs e w] layout_empty[of p w h] c
    by (simp add: layout_trace set_editor_ids)
qed

theorem layout_threshold_witness:
  "content example_mounted = [example_inner] \<and>
   store example_mounted (root_el example_inner)
     = Some \<lparr>el_id = [], el_classes = [''walkThroughContent''], el_height = Unset\<rparr> \<and>
   is_compact (layout 800 690 example_mounted) \<and>
   \<not> is_compact (layout 800 691 example_mounted) \<and>
   content_width (layout 800 690 example_mounted) = Px 800 \<and>
   content_height (layout 800 690 example_mounted) = Px 690 \<and>
   trace (layout 800 690 example_mounted)
     = trace example_mounted @ [EditorLayout 0, EditorLayout 1, Rescan]"
  using layout_threshold[where p = example_mounted and r = example_inner and rs = "[]"
      and e = "\<lparr>el_id = [], el_classes = [''walkThroughContent''], el_height = Unset\<rparr>"
      and w = 800 and h = 690]
  by (simp add: example_mounted_fields example_inner_def)

text \<open>
  The claim C7 as stated fails on a part whose content node is empty: at height 690 no
  compact state results.
\<close>

theorem layout_compact_counterexample:
  "\<not> is_compact (layout 800 690 fresh_part)"
  by (simp add: layout_def is_compact_def Let_def fresh_part_def)

subsection \<open>Disposal bookkeeping\<close>

lemma disposals_append [simp]: "disposals (xs @ ys) = disposals xs @ disposals ys"
  by (induction xs rule: disposals.induct) auto

lemma disposals_map_Disposed [simp]: "disposals (map Disposed ds) = ds"
  by (induction ds) auto

lemma disposals_map_EditorLayout [simp]: "disposals (map EditorLayout es) = []"
  by (induction es) auto

lemma numbered_mono:
  "numbered p d \<Longrightarrow> next_addr p \<le> next_addr q \<Longrightarrow> next_editor p \<le> next_editor q \<Longrightarrow>
   numbered q d"
  by (auto simp: numbered_def split: disposable.splits)

lemma quiet_refl [simp]: "quiet p p"
  by (simp add: quiet_def)

lemma quiet_trans:
  assumes "quiet p q" "quiet q r"
  shows "quiet p r"
proof -
  from assms(1) obtain ts where ts: "trace q = trace p @ ts" "disposals ts = []"
    by (auto simp: quiet_def)
  from assms(2) obtain us where us: "trace r = trace q @ us" "disposals us = []"
    by (auto simp: quiet_def)
  have "trace r = trace p @ (ts @ us)" "disposals (ts @ us) = []"
    using ts us by simp_all
  then have "\<exists>vs. trace r = trace p @ vs \<and> disposals vs = []" by blast
  with assms show ?thesis by (simp add: quiet_def)
qed

lemma quiet_disposals: "quiet p q \<Longrightarrow> disposals (trace q) = disposals (trace p)"
  by (auto simp: quiet_def)


lemma quiet_save: "quiet p (saveTextEditorViewState r p)"
  by (simp add: quiet_def saveTextEditorViewState_def Let_def split: option.splits)

lemma quiet_load: "quiet p (loadTextEditorViewState r p)"
  by (simp add: quiet_def loadTextEditorViewState_def split: option.splits)

lemma quiet_save_current: "quiet p (save_current p)"
  by (simp add: save_current_def quiet_save split: option.splits editor_input.splits)

lemma quiet_clearInput: "quiet p (clearInput f p)"
proof -
  have "quiet (save_current p) (clearInput f p)"
    by (simp add: clearInput_def Let_def quiet_def)
  with quiet_save_current[of p] show ?thesis by (rule quiet_trans)
qed

lemma quiet_shutdown: "quiet p (shutdown f p)"
proof -
  have "quiet (save_current p) (shutdown f p)"
    by (simp add: shutdown_def Let_def quiet_def)
  with quiet_save_current[of p] show ?thesis by (rule quiet_trans)
qed

lemma quiet_layout: "quiet p (layout w h p)"
  by (simp add: quiet_def layout_def Let_def split: list.splits option.splits)

lemma updateHeight_fields [simp]:
  "next_addr (updateHeight initial eid p) = next_addr p"
  "next_editor (updateHeight initial eid p) = next_editor p"
  "disposables (updateHeight initial eid p) = disposables p"
  "contentDisposables (updateHeight initial eid p) = contentDisposables p"
  "editors (updateHeight initial eid p) = editors p"
  "content (updateHeight initial eid p) = content p"
  by (simp_all add: updateHeight_def Let_def split: option.splits)

lemma quiet_updateHeight: "quiet p (updateHeight initial eid p)"
  by (simp add: quiet_def updateHeight_def Let_def split: option.splits)

lemma quiet_onDidChangeModelContent: "quiet p (onDidChangeModelContent eid n p)"
proof (cases "editors p eid")
  case None
  then show ?thesis by (simp add: onDidChangeModelContent_def)
next
  case (Some ed)
  let ?p' = "p\<lparr>editors := (editors p)(eid \<mapsto> ed\<lparr>ed_model := (ed_model ed)\<lparr>lineCount := n\<rparr>\<rparr>)\<rparr>"
  have "quiet p ?p'" by (simp add: quiet_def)
  moreover have "quiet ?p' (updateHeight False eid ?p')" by (rule quiet_updateHeight)
  ultimately have "quiet p (updateHeight False eid ?p')" by (rule quiet_trans)
  with Some \<open>quiet p ?p'\<close> show ?thesis
    by (simp add: onDidChangeModelContent_def Let_def)
qed

lemma theme_listeners_quiet: "quiet p (theme_listeners t ds p)"
proof (induction t ds p rule: theme_listeners.induct)
  case (1 theme p)
  then show ?case by simp
next
  case (2 theme r ds p)
  have "quiet p (p\<lparr>trace := trace p @ [Styled r]\<rparr>)" by (simp add: quiet_def)
  with 2 show ?case by (auto intro: quiet_trans)
next
  case (3 theme e ds p)
  have "quiet p (case editors p e of None \<Rightarrow> p
        | Some editor \<Rightarrow> p\<lparr>editors := (editors p)(e \<mapsto> editor\<lparr>ed_theme := theme\<rparr>)\<rparr>)"
    by (simp add: quiet_def split: option.splits)
  with 3 show ?case by (auto intro: quiet_trans)
qed simp_all

lemma quiet_onDidColorThemeChange: "quiet p (onDidColorThemeChange t p)"
  by (simp add: onDidColorThemeChange_def theme_listeners_quiet)

lemma quiet_open_href: "open_href sv href p = Inr q \<Longrightarrow> quiet p q"
  by (auto simp: open_href_def quiet_def split: sum.splits)

lemma quiet_click: "click sv w nodes p = Inr q \<Longrightarrow> quiet p q"
proof (induction sv w nodes p rule: click.induct)
  case (2 sv w href hash nodes p)
  show ?case
  proof (cases "href = []")
    case True
    with 2 show ?thesis by simp
  next
    case False
    show ?thesis
    proof (cases "contains href (base_href w) \<and> hash \<noteq> []")
      case True
      with False 2(2) show ?thesis
        by (auto simp: quiet_def split: sum.splits option.splits)
    next
      case no: False
      with False 2(2) obtain q' where o: "open_href sv href p = Inr q'"
        and q: "q = q'\<lparr>trace := trace q' @ [DefaultPrevented]\<rparr>"
        by (auto split: sum.splits)
      have "quiet q' q" unfolding q by (simp add: quiet_def)
      with quiet_open_href[OF o] show ?thesis by (rule quiet_trans)
    qed
  qed
next
  case (3 sv w data_href nodes p)
  then show ?case by (auto split: option.splits if_splits dest: quiet_open_href)
qed auto

lemma quiet_at_position: "quiet p (at_position k p)"
  by (simp add: quiet_def at_position_def)

lemma quiet_scrolled: "quiet p (scrolled S p)"
  by (simp add: quiet_def scrolled_def)

lemma alloc_elements_frame:
  "alloc_elements es p = (as, q) \<Longrightarrow>
   trace q = trace p \<and> contentDisposables q = contentDisposables p \<and>
   disposables q = disposables p \<and> next_editor q = next_editor p \<and>
   next_addr q = next_addr p + length es \<and> content q = content p \<and>
   editor_base q = editor_base p \<and> memento q = memento p \<and> scrollbar q = scrollbar p \<and>
   editors q = editors p \<and> as = [next_addr p ..< next_addr p + length es]"
proof (induction es arbitrary: p as q)
  case Nil
  then show ?case by simp
next
  case (Cons e es)
  let ?p1 = "p\<lparr>store := (store p)(next_addr p \<mapsto> e), next_addr := Suc (next_addr p)\<rparr>"
  obtain as' q' where r: "alloc_elements es ?p1 = (as', q')" by (cases "alloc_elements es ?p1")
  with Cons.prems have eq: "as = next_addr p # as'" "q = q'" by (simp_all add: Let_def)
  from Cons.IH[OF r] eq show ?case by (simp add: upt_rec)
qed

lemma alloc_forest_frame:
  "alloc_forest ts p = (rs, q) \<Longrightarrow>
   trace q = trace p \<and> contentDisposables q = contentDisposables p \<and>
   disposables q = disposables p \<and> next_editor q = next_editor p \<and>
   next_addr p \<le> next_addr q \<and> content q = content p \<and>
   editor_base q = editor_base p \<and> memento q = memento p \<and> scrollbar q = scrollbar p"
proof (induction ts arbitrary: p rs q)
  case Nil
  then show ?case by simp
next
  case (Cons t ts)
  obtain e ds where t: "t = (e, ds)" by (cases t)
  let ?p0 = "p\<lparr>store := (store p)(next_addr p \<mapsto> e), next_addr := Suc (next_addr p)\<rparr>"
  obtain as p1 where a: "alloc_elements ds ?p0 = (as, p1)" by (cases "alloc_elements ds ?p0")
  obtain rs' p2 where f: "alloc_forest ts p1 = (rs', p2)" by (cases "alloc_forest ts p1")
  from Cons.prems t a f have q: "q = p2" by (simp add: Let_def)
  from alloc_elements_frame[OF a] Cons.IH[OF f] q show ?case by simp
qed

lemma quiet_finish_mount: "quiet p (finish_mount i p)"
proof -
  let ?p2 = "(if onReady i then p\<lparr>trace := trace p @ [Ready]\<rparr> else p)\<lparr>trace :=
      trace (if onReady i then p\<lparr>trace := trace p @ [Ready]\<rparr> else p) @ [Rescan]\<rparr>"
  have "quiet p ?p2" by (simp add: quiet_def)
  moreover have "quiet ?p2 (loadTextEditorViewState (resource i) ?p2)" by (rule quiet_load)
  ultimately show ?thesis unfolding finish_mount_def Let_def by (rule quiet_trans)
qed

lemma quiet_mount_markup: "quiet p (mount_markup sv i m p)"
proof -
  obtain rs p1 where a: "alloc_forest (parse_html sv (join_lines (main_lines m))) p = (rs, p1)"
    by (cases "alloc_forest (parse_html sv (join_lines (main_lines m))) p")
  let ?p2 = "p1\<lparr>content := rs, trace := trace p1 @ [MarkupSet, Decorated]\<rparr>"
  from alloc_forest_frame[OF a] have "quiet p ?p2" by (simp add: quiet_def)
  moreover have "quiet ?p2 (finish_mount i ?p2)" by (rule quiet_finish_mount)
  ultimately have "quiet p (finish_mount i ?p2)" by (rule quiet_trans)
  then show ?thesis using a by (simp add: mount_markup_def)
qed

lemma quiet_pushes: "quiet p q \<Longrightarrow> pushes p q"
  by (simp add: quiet_def pushes_def)

lemma not_numbered_mono:
  "\<not> numbered q d \<Longrightarrow> next_addr p \<le> next_addr q \<Longrightarrow> next_editor p \<le> next_editor q \<Longrightarrow>
   \<not> numbered p d"
  by (auto simp: numbered_def split: disposable.splits)


lemma pushes_trans:
  assumes "pushes p q" "pushes q r"
  shows "pushes p r"
proof -
  from assms(1) obtain ds ts where ds: "contentDisposables q = contentDisposables p @ ds"
    "distinct ds" "list_all (numbered q) ds" "list_all (\<lambda>d. \<not> numbered p d) ds"
    and pq: "trace q = trace p @ ts" "disposals ts = []" "disposables q = disposables p"
      "next_addr p \<le> next_addr q" "next_editor p \<le> next_editor q"
    by (auto simp: pushes_def)
  from assms(2) obtain es us where es: "contentDisposables r = contentDisposables q @ es"
    "distinct es" "list_all (numbered r) es" "list_all (\<lambda>d. \<not> numbered q d) es"
    and qr: "trace r = trace q @ us" "disposals us = []" "disposables r = disposables q"
      "next_addr q \<le> next_addr r" "next_editor q \<le> next_editor r"
    by (auto simp: pushes_def)
  have d: "distinct (ds @ es)"
    using ds(2,3) es(2,4) by (auto simp: list_all_iff)
  have n: "list_all (numbered r) (ds @ es)"
    using ds(3) es(3) qr(4,5) by (auto simp: list_all_iff intro: numbered_mono)
  have m: "list_all (\<lambda>d. \<not> numbered p d) (ds @ es)"
    using ds(4) es(4) pq(4,5) by (auto simp: list_all_iff dest: numbered_mono)
  have c: "contentDisposables r = contentDisposables p @ (ds @ es)"
    using ds(1) es(1) by simp
  have t: "trace r = trace p @ (ts @ us)" "disposals (ts @ us) = []"
    using pq(1,2) qr(1,2) by simp_all
  have 1: "\<exists>vs. trace r = trace p @ vs \<and> disposals vs = []" using t by blast
  have 2: "\<exists>xs. contentDisposables r = contentDisposables p @ xs \<and> distinct xs \<and>
           list_all (numbered r) xs \<and> list_all (\<lambda>d. \<not> numbered p d) xs"
    using c d n m by blast
  have 3: "disposables r = disposables p" "next_addr p \<le> next_addr r"
    "next_editor p \<le> next_editor r"
    using pq qr by simp_all
  show ?thesis unfolding pushes_def using 1 2 3 by blast
qed


lemma pushes_attach_editor: "pushes p (attach_editor sv host j sn p)"
proof -
  let ?eid = "next_editor p"
  let ?p1 = "p\<lparr>editors := (editors p)(?eid \<mapsto>
                     \<lparr>ed_host = host, ed_model = sn, lineHeight = editorLineHeight sv,
                      ed_theme = colorTheme sv\<rparr>),
                 next_editor := Suc ?eid,
                 contentDisposables := contentDisposables p @ [CodeEditor ?eid]\<rparr>"
  let ?p2 = "updateHeight True ?eid ?p1"
  let ?p3 = "?p2\<lparr>contentDisposables :=
                     contentDisposables ?p2 @ [ContentChangeSub ?eid, EditorThemeSub ?eid]\<rparr>"
  have q: "quiet ?p1 ?p2" by (rule quiet_updateHeight)
  then obtain ts where ts: "trace ?p2 = trace p @ ts" "disposals ts = []"
    by (auto simp: quiet_def)
  have a: "attach_editor sv host j sn p
           = (if j = 0 then ?p3\<lparr>trace := trace ?p3 @ [EditorFocus ?eid]\<rparr> else ?p3)" for j
    by (simp add: attach_editor_def Let_def)
  have t: "\<exists>vs. trace (attach_editor sv host j sn p) = trace p @ vs \<and> disposals vs = []"
  proof (cases "j = 0")
    case True
    have "trace (attach_editor sv host j sn p) = trace p @ (ts @ [EditorFocus ?eid])"
      "disposals (ts @ [EditorFocus ?eid]) = []"
      using ts True by (simp_all add: a)
    then show ?thesis by blast
  next
    case False
    with ts show ?thesis by (simp add: a)
  qed
  have c: "contentDisposables (attach_editor sv host j sn p)
        = contentDisposables p @ [CodeEditor ?eid, ContentChangeSub ?eid, EditorThemeSub ?eid]"
    by (simp add: a)
  have o: "disposables (attach_editor sv host j sn p) = disposables p"
    "next_addr p \<le> next_addr (attach_editor sv host j sn p)"
    "next_editor (attach_editor sv host j sn p) = Suc ?eid"
    by (simp_all add: a)
  have e: "\<exists>xs. contentDisposables (attach_editor sv host j sn p) = contentDisposables p @ xs \<and>
     distinct xs \<and> list_all (numbered (attach_editor sv host j sn p)) xs \<and>
     list_all (\<lambda>d. \<not> numbered p d) xs"
    by (rule exI[of _ "[CodeEditor ?eid, ContentChangeSub ?eid, EditorThemeSub ?eid]"])
       (simp add: c o numbered_def)
  show ?thesis unfolding pushes_def using t e o by simp
qed

lemma pushes_mount_snippet: "mount_snippet sv rt j sn p = Inr q \<Longrightarrow> pushes p q"
  by (auto simp: mount_snippet_def pushes_attach_editor split: sum.splits option.splits)

lemma pushes_mount_snippets: "mount_snippets sv rt j sns p = Inr q \<Longrightarrow> pushes p q"
proof (induction sns arbitrary: j p)
  case Nil
  then show ?case by (simp add: quiet_pushes)
next
  case (Cons sn sns)
  then obtain p' where a: "mount_snippet sv rt j sn p = Inr p'"
    and b: "mount_snippets sv rt (Suc j) sns p' = Inr q"
    by (auto split: sum.splits)
  from pushes_mount_snippet[OF a] Cons.IH[OF b] show ?case by (rule pushes_trans)
qed

lemma pushes_mount_markdown:
  assumes "mount_markdown sv i m p = Inr q"
  shows "pushes p q"
proof -
  from assms obtain es where es: "render_blocks (snippets m) 0
      (marked_blocks sv (expandMacros sv (join_lines (main_lines m)))) = Inr es"
    by (auto simp: mount_markdown_def split: sum.splits)
  let ?r = "next_addr p"
  let ?p1 = "p\<lparr>store := (store p)(?r \<mapsto>
                \<lparr>el_id = [], el_classes = [''walkThroughContent''], el_height = Unset\<rparr>),
              next_addr := Suc ?r\<rparr>"
  obtain as p2 where a: "alloc_elements es ?p1 = (as, p2)" by (cases "alloc_elements es ?p1")
  let ?p3 = "p2\<lparr>contentDisposables := contentDisposables p2 @ [RootStyleSub ?r],
                content := content p2 @ [\<lparr>root_el = ?r, descendants = as\<rparr>],
                trace := trace p2 @ [Styled ?r, RootAppended ?r]\<rparr>"
  from assms es a obtain p4 where
    m: "mount_snippets sv \<lparr>root_el = ?r, descendants = as\<rparr> 0 (snippets m) ?p3 = Inr p4"
    and q: "q = finish_mount i p4"
    by (auto simp: mount_markdown_def Let_def split: sum.splits)
  note f = alloc_elements_frame[OF a]
  have "\<exists>xs. contentDisposables ?p3 = contentDisposables p @ xs \<and> distinct xs \<and>
           list_all (numbered ?p3) xs \<and> list_all (\<lambda>d. \<not> numbered p d) xs"
    by (rule exI[of _ "[RootStyleSub ?r]"]) (simp add: f numbered_def)
  moreover have "\<exists>ts. trace ?p3 = trace p @ ts \<and> disposals ts = []"
    by (rule exI[of _ "[Styled ?r, RootAppended ?r]"]) (simp add: f)
  ultimately have "pushes p ?p3"
    unfolding pushes_def using f by simp
  moreover have "pushes ?p3 p4" using m by (rule pushes_mount_snippets)
  moreover have "pushes p4 q" unfolding q by (intro quiet_pushes quiet_finish_mount)
  ultimately show ?thesis by (blast intro: pushes_trans)
qed

lemma pushes_setInput_resolved: "setInput_resolved sv i m p = Inr q \<Longrightarrow> pushes p q"
  by (auto simp: setInput_resolved_def pushes_mount_markdown quiet_pushes quiet_mount_markup
           split: if_splits)

lemma save_current_fields:
  "contentDisposables (save_current p) = contentDisposables p \<and>
   disposables (save_current p) = disposables p \<and> content (save_current p) = content p \<and>
   store (save_current p) = store p \<and> editors (save_current p) = editors p \<and>
   scrollbar (save_current p) = scrollbar p \<and> editor_base (save_current p) = editor_base p \<and>
   next_addr (save_current p) = next_addr p \<and> next_editor (save_current p) = next_editor p \<and>
   content_height (save_current p) = content_height p \<and>
   content_width (save_current p) = content_width p"
  by (simp add: save_current_def saveTextEditorViewState_def Let_def
           split: option.splits editor_input.splits)

lemma setInput_begin_trace:
  "trace (setInput_begin f i p)
   = trace (save_current p) @ map Disposed (contentDisposables p) @ [ContentCleared]"
  by (simp add: setInput_begin_def Let_def dispose_list_def save_current_fields)

lemma setInput_begin_fields:
  "contentDisposables (setInput_begin f i p) = [] \<and> content (setInput_begin f i p) = [] \<and>
   disposables (setInput_begin f i p) = disposables p \<and>
   next_addr (setInput_begin f i p) = next_addr p \<and>
   next_editor (setInput_begin f i p) = next_editor p"
  by (simp add: setInput_begin_def Let_def dispose_list_def save_current_fields)

lemma setInput_begin_disposals:
  "disposals (trace (setInput_begin f i p)) = disposals (trace p) @ contentDisposables p"
  using quiet_disposals[OF quiet_save_current[of p]] by (simp add: setInput_begin_trace)


lemma dispose_trace:
  "trace (dispose f p) = trace p @ map Disposed (contentDisposables p) @ map Disposed (disposables p)"
  by (simp add: dispose_def Let_def dispose_list_def)









subsection \<open>Replacement and clearing\<close>

lemma save_current_walk:
  assumes "input (editor_base p) = Some (WalkThroughInput old)" "position (editor_base p) = Some k"
  shows "trace (save_current p) = trace p @ [Persisted (uri_toString (resource old)) k (scrollbar p)]"
    and "stored (save_current p) (uri_toString (resource old)) k = Some \<lparr>viewState = scrollbar p\<rparr>"
  using assms
  by (simp_all add: save_current_def saveTextEditorViewState_def stored_def Let_def)





lemma clearInput_eq:
  "clearInput f p = p\<lparr>editor_base := f (editor_base p), memento := memento (save_current p),
                       trace := trace (save_current p)\<rparr>"
  by (simp add: clearInput_def Let_def save_current_def saveTextEditorViewState_def
           split: option.splits editor_input.splits)

text \<open>
  C10. \<^verbatim>\<open>clearInput\<close> changes the memento and the trace as the save of the current view
  state does, hands the inherited fields to \<^verbatim>\<open>super.clearInput\<close>, and changes nothing else:
  the content disposables stay on their list undisposed and the content stays mounted.
  With a walkthrough input and a position the save persists the scroll offsets; without
  a walkthrough input nothing is saved. The disposables are disposed by the next
  \<^verbatim>\<open>setInput\<close> or by \<^verbatim>\<open>dispose\<close>, and no other event disposes anything or takes them off
  the list.
\<close>

theorem clearInput_keeps_content:
  "p\<lparr>editor_base := f (editor_base p), memento := memento (save_current p),
     trace := trace (save_current p)\<rparr> = clearInput f p \<and>
   contentDisposables (clearInput f p) = contentDisposables p \<and>
   content (clearInput f p) = content p \<and>
   disposals (trace (clearInput f p)) = disposals (trace p) \<and>
   (input (editor_base p) = Some (WalkThroughInput i) \<and> position (editor_base p) = Some k \<longrightarrow>
      trace (clearInput f p)
        = trace p @ [Persisted (uri_toString (resource i)) k (scrollbar p)] \<and>
      stored (clearInput f p) (uri_toString (resource i)) k = Some \<lparr>viewState = scrollbar p\<rparr>) \<and>
   ((\<forall>i. input (editor_base p) \<noteq> Some (WalkThroughInput i)) \<longrightarrow>
      trace (clearInput f p) = trace p \<and> memento (clearInput f p) = memento p) \<and>
   disposals (trace (setInput_begin g j (clearInput f p)))
     = disposals (trace p) @ contentDisposables p \<and>
   disposals (trace (dispose h (clearInput f p)))
     = disposals (trace p) @ contentDisposables p @ disposables p \<and>
   ((\<forall>j. s \<noteq> Call j) \<and> s \<noteq> Dispose \<and> exec sv b s (clearInput f p) = Inr q \<longrightarrow>
      disposals (trace q) = disposals (trace p) \<and>
      (\<exists>ds. contentDisposables q = contentDisposables p @ ds))"
proof -
  let ?c = "clearInput f p"
  have e: "p\<lparr>editor_base := f (editor_base p), memento := memento (save_current p),
                       trace := trace (save_current p)\<rparr> = ?c"
    by (rule clearInput_eq[symmetric])
  have cd: "contentDisposables ?c = contentDisposables p" "content ?c = content p"
    "disposables ?c = disposables p"
    by (simp_all add: clearInput_eq)
  have d: "disposals (trace ?c) = disposals (trace p)"
    using quiet_clearInput[of p f] by (rule quiet_disposals)
  have w: "trace ?c = trace p @ [Persisted (uri_toString (resource i)) k (scrollbar p)] \<and>
      stored ?c (uri_toString (resource i)) k = Some \<lparr>viewState = scrollbar p\<rparr>"
    if "input (editor_base p) = Some (WalkThroughInput i) \<and> position (editor_base p) = Some k"
    using save_current_walk[of p i k] that by (simp add: clearInput_eq stored_def)
  have n: "trace ?c = trace p \<and> memento ?c = memento p"
    if "\<forall>i. input (editor_base p) \<noteq> Some (WalkThroughInput i)"
    using that by (simp add: clearInput_eq save_current_def split: option.splits editor_input.splits)
  have sb: "disposals (trace (setInput_begin g j ?c)) = disposals (trace p) @ contentDisposables p"
    by (simp add: setInput_begin_disposals d cd)
  have di: "disposals (trace (dispose h ?c))
     = disposals (trace p) @ contentDisposables p @ disposables p"
    by (simp add: dispose_trace d cd)
  have o: "disposals (trace q) = disposals (trace p) \<and>
      (\<exists>ds. contentDisposables q = contentDisposables p @ ds)"
    if a: "(\<forall>j. s \<noteq> Call j) \<and> s \<noteq> Dispose \<and> exec sv b s ?c = Inr q"
  proof -
    have "pushes ?c q"
    proof (cases s)
      case (Resolved i m)
      with a show ?thesis by (auto intro: pushes_setInput_resolved)
    next
      case (Click w nodes)
      with a show ?thesis by (auto intro: quiet_pushes quiet_click)
    qed (use a in \<open>auto intro!: quiet_pushes quiet_layout quiet_clearInput quiet_shutdown
      quiet_onDidChangeModelContent quiet_onDidColorThemeChange quiet_at_position quiet_scrolled\<close>)
    then show ?thesis using d cd by (auto simp: pushes_def)
  qed
  from e cd d w n sb di o show ?thesis by blast
qed

theorem clearInput_keeps_content_witness:
  "input (editor_base example_mounted) = Some (WalkThroughInput (example_input ''/a.md'')) \<and>
   position (editor_base example_mounted) = Some 1 \<and>
   contentDisposables (clearInput (super_clearInput example_base) example_mounted)
     = contentDisposables example_mounted \<and>
   content (clearInput (super_clearInput example_base) example_mounted) = [example_inner] \<and>
   trace (clearInput (super_clearInput example_base) example_mounted)
     = trace example_mounted @
       [Persisted (uri_toString (doc_uri ''/a.md'')) 1 \<lparr>scrollTop = 0, scrollLeft = 0\<rparr>] \<and>
   disposals (trace (setInput_begin (super_setInput example_base) (example_input ''/b.md'')
       (clearInput (super_clearInput example_base) example_mounted)))
     = [RootStyleSub 0, CodeEditor 0, ContentChangeSub 0, EditorThemeSub 0,
        CodeEditor 1, ContentChangeSub 1, EditorThemeSub 1] \<and>
   exec example_services example_base (Layout 800 600)
       (clearInput (super_clearInput example_base) example_mounted)
     = Inr (layout 800 600 (clearInput (super_clearInput example_base) example_mounted)) \<and>
   disposals (trace (layout 800 600 (clearInput (super_clearInput example_base) example_mounted)))
     = []"
  using clearInput_keeps_content[where f = "super_clearInput example_base" and p = example_mounted
      and i = "example_input ''/a.md''" and k = 1
      and g = "super_setInput example_base" and j = "example_input ''/b.md''"
      and h = "super_dispose example_base" and s = "Layout 800 600"
      and sv = example_services and b = example_base
      and q = "layout 800 600 (clearInput (super_clearInput example_base) example_mounted)"]
  by (simp add: example_mounted_fields example_input_def)

subsection \<open>Overlapping calls\<close>

lemma attach_editor_content [simp]: "content (attach_editor sv host j sn p) = content p"
  by (simp add: attach_editor_def Let_def)

lemma mount_snippets_content: "mount_snippets sv rt j sns p = Inr q \<Longrightarrow> content q = content p"
proof (induction sns arbitrary: j p)
  case Nil
  then show ?case by simp
next
  case (Cons sn sns)
  then obtain p' where a: "mount_snippet sv rt j sn p = Inr p'"
    and b: "mount_snippets sv rt (Suc j) sns p' = Inr q"
    by (auto split: sum.splits)
  from a have "content p' = content p"
    by (auto simp: mount_snippet_def split: sum.splits option.splits)
  with Cons.IH[OF b] show ?case by simp
qed

lemma finish_mount_content [simp]: "content (finish_mount i p) = content p"
  by (simp add: finish_mount_def loadTextEditorViewState_def Let_def split: option.splits)

lemma mount_markdown_appends:
  assumes "mount_markdown sv i m p = Inr q"
  shows "\<exists>r. content q = content p @ [r] \<and> root_el r = next_addr p"
proof -
  from assms obtain es where es: "render_blocks (snippets m) 0
      (marked_blocks sv (expandMacros sv (join_lines (main_lines m)))) = Inr es"
    by (auto simp: mount_markdown_def split: sum.splits)
  let ?r = "next_addr p"
  let ?p1 = "p\<lparr>store := (store p)(?r \<mapsto>
                \<lparr>el_id = [], el_classes = [''walkThroughContent''], el_height = Unset\<rparr>),
              next_addr := Suc ?r\<rparr>"
  obtain as p2 where a: "alloc_elements es ?p1 = (as, p2)" by (cases "alloc_elements es ?p1")
  let ?p3 = "p2\<lparr>contentDisposables := contentDisposables p2 @ [RootStyleSub ?r],
                content := content p2 @ [\<lparr>root_el = ?r, descendants = as\<rparr>],
                trace := trace p2 @ [Styled ?r, RootAppended ?r]\<rparr>"
  from assms es a obtain p4 where
    m: "mount_snippets sv \<lparr>root_el = ?r, descendants = as\<rparr> 0 (snippets m) ?p3 = Inr p4"
    and q: "q = finish_mount i p4"
    by (auto simp: mount_markdown_def Let_def split: sum.splits)
  from mount_snippets_content[OF m] alloc_elements_frame[OF a] q
  have "content q = content p @ [\<lparr>root_el = ?r, descendants = as\<rparr>]" by simp
  then show ?thesis by simp
qed

lemma mount_markup_replaces:
  "content (mount_markup sv i m p) = fst (alloc_forest (parse_html sv (join_lines (main_lines m))) p)"
  by (simp add: mount_markup_def split: prod.splits)

text \<open>
  C2, as the code has it. The continuation of \<^verbatim>\<open>setInput\<close> holds no test of whether its
  call is still the most recent one: in whatever part it runs, a Markdown document that
  resolves is appended to the content as a new root after the roots already there, and a
  markup document that resolves replaces the children of the content. A call empties
  the content when it is made, not when it resolves.
\<close>

theorem resolution_always_mounts:
  "(\<not> endsWith (path (resource i)) ''.html'' \<and> setInput_resolved sv i m p = Inr q \<longrightarrow>
      (\<exists>r. content q = content p @ [r] \<and> root_el r = next_addr p)) \<and>
   (endsWith (path (resource i)) ''.html'' \<longrightarrow>
      (\<exists>q'. setInput_resolved sv i m p = Inr q' \<and>
         content q' = fst (alloc_forest (parse_html sv (join_lines (main_lines m))) p))) \<and>
   content (setInput_begin f i p) = []"
  by (auto simp: setInput_resolved_def mount_markup_replaces setInput_begin_fields
           dest: mount_markdown_appends)

theorem resolution_always_mounts_witness:
  "\<not> endsWith (path (resource (example_input ''/a.md''))) ''.html'' \<and>
   setInput_resolved example_services (example_input ''/a.md'') example_model
     (setInput_begin (super_setInput example_base) (example_input ''/a.md'') (at_position 1 fresh_part))
     = Inr example_mounted \<and>
   content (setInput_begin (super_setInput example_base) (example_input ''/a.md'')
              (at_position 1 fresh_part)) = [] \<and>
   content example_mounted = [example_inner] \<and>
   endsWith (path (resource (example_input ''/b.html''))) ''.html'' \<and>
   setInput_resolved example_services (example_input ''/b.html'')
     \<lparr>main_lines = [''B''], snippets = []\<rparr> example_mounted
     = Inr (mount_markup example_services (example_input ''/b.html'')
              \<lparr>main_lines = [''B''], snippets = []\<rparr> example_mounted) \<and>
   content (mount_markup example_services (example_input ''/b.html'')
              \<lparr>main_lines = [''B''], snippets = []\<rparr> example_mounted)
     = fst (alloc_forest [(\<lparr>el_id = ''B'', el_classes = [], el_height = Unset\<rparr>, [])]
              example_mounted)"
proof -
  let ?p = "setInput_begin (super_setInput example_base) (example_input ''/a.md'')
              (at_position 1 fresh_part)"
  have h: "endsWith (path (resource (example_input ''/b.html''))) ''.html''"
    by (simp add: endsWith_def example_input_def doc_uri_def)
  have r: "setInput_resolved example_services (example_input ''/a.md'') example_model ?p
           = Inr example_mounted"
    by (simp add: setInput_resolved_def ex_markdown ex_begin ex_mount_markdown
          One_nat_def[symmetric] del: One_nat_def)
  have ph: "parse_html example_services (join_lines [''B''])
            = [(\<lparr>el_id = ''B'', el_classes = [], el_height = Unset\<rparr>, [])]"
    by (simp add: example_services_def)
  from resolution_always_mounts[where i = "example_input ''/a.md''" and sv = example_services
      and m = example_model and q = example_mounted and f = "super_setInput example_base"
      and p = ?p]
    resolution_always_mounts[where i = "example_input ''/b.html''" and sv = example_services
      and m = "\<lparr>main_lines = [''B''], snippets = []\<rparr>" and p = example_mounted]
  show ?thesis
    using h r ph ex_markdown
    by (simp add: example_mounted_fields ex_begin setInput_resolved_def
          One_nat_def[symmetric] del: One_nat_def)
qed

text \<open>
  The claim C2 as stated fails. Two markup documents: \<^verbatim>\<open>/a.html\<close> is set, then \<^verbatim>\<open>/b.html\<close>;
  \<^verbatim>\<open>/b.html\<close> resolves first and \<^verbatim>\<open>/a.html\<close> afterwards. The part ends with \<^verbatim>\<open>/b.html\<close> as its
  input and the stale document \<open>A\<close> as its content. With two (empty) Markdown documents in
  the same order both roots end up mounted, the stale one last.
\<close>

lemma finish_mount_fields [simp]:
  "store (finish_mount i p) = store p" "editor_base (finish_mount i p) = editor_base p"
  "next_addr (finish_mount i p) = next_addr p" "memento (finish_mount i p) = memento p"
  by (simp_all add: finish_mount_def loadTextEditorViewState_def Let_def split: option.splits)

lemma setInput_begin_base:
  "editor_base (setInput_begin f i p) = f i (editor_base p)"
  "store (setInput_begin f i p) = store p"
  by (simp_all add: setInput_begin_def Let_def dispose_list_def save_current_fields)

lemma mount_markup_single:
  assumes "parse_html sv (join_lines (main_lines m)) = [(e, [])]"
  shows "content (mount_markup sv i m p) = [\<lparr>root_el = next_addr p, descendants = []\<rparr>]"
    and "store (mount_markup sv i m p) = (store p)(next_addr p \<mapsto> e)"
    and "next_addr (mount_markup sv i m p) = Suc (next_addr p)"
    and "editor_base (mount_markup sv i m p) = editor_base p"
  using assms by (simp_all add: mount_markup_def Let_def)

lemma mount_markdown_empty:
  assumes "marked_blocks sv (expandMacros sv (join_lines (main_lines m))) = []"
    and "snippets m = []"
  shows "mount_markdown sv i m p
         = Inr (finish_mount i
             (p\<lparr>store := (store p)(next_addr p \<mapsto>
                    \<lparr>el_id = [], el_classes = [''walkThroughContent''], el_height = Unset\<rparr>),
                next_addr := Suc (next_addr p),
                contentDisposables := contentDisposables p @ [RootStyleSub (next_addr p)],
                content := content p @ [\<lparr>root_el = next_addr p, descendants = []\<rparr>],
                trace := trace p @ [Styled (next_addr p), RootAppended (next_addr p)]\<rparr>))"
  using assms by (simp add: mount_markdown_def Let_def)

theorem stale_resolution_counterexample:
  "(\<exists>q. run example_services example_base
          [Call (example_input ''/a.html''), Call (example_input ''/b.html''),
           Resolved (example_input ''/b.html'') \<lparr>main_lines = [''B''], snippets = []\<rparr>,
           Resolved (example_input ''/a.html'') \<lparr>main_lines = [''A''], snippets = []\<rparr>]
          fresh_part = Inr q \<and>
        input (editor_base q) = Some (WalkThroughInput (example_input ''/b.html'')) \<and>
        content q = [\<lparr>root_el = 1, descendants = []\<rparr>] \<and>
        map_option el_id (store q 1) = Some ''A'') \<and>
   (\<exists>q. run example_services example_base
          [Call (example_input ''/a.md''), Call (example_input ''/b.md''),
           Resolved (example_input ''/b.md'') \<lparr>main_lines = [], snippets = []\<rparr>,
           Resolved (example_input ''/a.md'') \<lparr>main_lines = [], snippets = []\<rparr>]
          fresh_part = Inr q \<and>
        input (editor_base q) = Some (WalkThroughInput (example_input ''/b.md'')) \<and>
        content q = [\<lparr>root_el = 0, descendants = []\<rparr>, \<lparr>root_el = 1, descendants = []\<rparr>])"
proof (intro conjI)
  let ?f = "super_setInput example_base"
  let ?a = "example_input ''/a.html''" and ?b = "example_input ''/b.html''"
  let ?mA = "\<lparr>main_lines = [''A''], snippets = []\<rparr>" and ?mB = "\<lparr>main_lines = [''B''], snippets = []\<rparr>"
  let ?s2 = "setInput_begin ?f ?b (setInput_begin ?f ?a fresh_part)"
  let ?q = "mount_markup example_services ?a ?mA (mount_markup example_services ?b ?mB ?s2)"
  have h: "endsWith (path (resource ?a)) ''.html''" "endsWith (path (resource ?b)) ''.html''"
    by (simp_all add: endsWith_def example_input_fields)
  have r: "run example_services example_base
             [Call ?a, Call ?b, Resolved ?b ?mB, Resolved ?a ?mA] fresh_part = Inr ?q"
    by (simp add: setInput_resolved_def h)
  have pa: "parse_html example_services (join_lines (main_lines ?mA))
            = [(\<lparr>el_id = ''A'', el_classes = [], el_height = Unset\<rparr>, [])]"
    and pb: "parse_html example_services (join_lines (main_lines ?mB))
            = [(\<lparr>el_id = ''B'', el_classes = [], el_height = Unset\<rparr>, [])]"
    by (simp_all add: example_services_fields)
  have n2: "next_addr ?s2 = 0" by (simp add: setInput_begin_fields fresh_part_def)
  have n3: "next_addr (mount_markup example_services ?b ?mB ?s2) = 1"
    using mount_markup_single(3)[OF pb, of ?b ?s2] n2 by simp
  have c: "content ?q = [\<lparr>root_el = 1, descendants = []\<rparr>]"
    using mount_markup_single(1)[OF pa, of ?a "mount_markup example_services ?b ?mB ?s2"] n3
    by simp
  have s: "map_option el_id (store ?q 1) = Some ''A''"
    using mount_markup_single(2)[OF pa, of ?a "mount_markup example_services ?b ?mB ?s2"] n3
    by simp
  have i: "input (editor_base ?q) = Some (WalkThroughInput ?b)"
    using mount_markup_single(4)[OF pa, of ?a "mount_markup example_services ?b ?mB ?s2"]
      mount_markup_single(4)[OF pb, of ?b ?s2]
    by (simp add: setInput_begin_base example_base_fields)
  from r c s i show "\<exists>q. run example_services example_base
          [Call ?a, Call ?b, Resolved ?b ?mB, Resolved ?a ?mA] fresh_part = Inr q \<and>
        input (editor_base q) = Some (WalkThroughInput ?b) \<and>
        content q = [\<lparr>root_el = 1, descendants = []\<rparr>] \<and>
        map_option el_id (store q 1) = Some ''A''"
    by blast
next
  let ?f = "super_setInput example_base"
  let ?a = "example_input ''/a.md''" and ?b = "example_input ''/b.md''"
  let ?m = "\<lparr>main_lines = [], snippets = []\<rparr> :: walk_model"
  let ?s2 = "setInput_begin ?f ?b (setInput_begin ?f ?a fresh_part)"
  have h: "\<not> endsWith (path (resource ?a)) ''.html''" "\<not> endsWith (path (resource ?b)) ''.html''"
    by (simp_all add: endsWith_def example_input_fields)
  have e: "marked_blocks example_services (expandMacros example_services (join_lines (main_lines ?m))) = []"
    "snippets ?m = []"
    by (simp_all add: example_services_fields)
  let ?add = "\<lambda>p. p\<lparr>store := (store p)(next_addr p \<mapsto>
                    \<lparr>el_id = [], el_classes = [''walkThroughContent''], el_height = Unset\<rparr>),
                next_addr := Suc (next_addr p),
                contentDisposables := contentDisposables p @ [RootStyleSub (next_addr p)],
                content := content p @ [\<lparr>root_el = next_addr p, descendants = []\<rparr>],
                trace := trace p @ [Styled (next_addr p), RootAppended (next_addr p)]\<rparr>"
  let ?s3 = "finish_mount ?b (?add ?s2)"
  let ?q = "finish_mount ?a (?add ?s3)"
  have m3: "mount_markdown example_services ?b ?m ?s2 = Inr ?s3"
    by (rule mount_markdown_empty[OF e])
  have m4: "mount_markdown example_services ?a ?m ?s3 = Inr ?q"
    by (rule mount_markdown_empty[OF e])
  have r: "run example_services example_base
             [Call ?a, Call ?b, Resolved ?b ?m, Resolved ?a ?m] fresh_part = Inr ?q"
    using m3 m4 by (simp add: setInput_resolved_def h)
  have n2: "next_addr ?s2 = 0" "content ?s2 = []"
    by (simp_all add: setInput_begin_fields fresh_part_def)
  have c: "content ?q = [\<lparr>root_el = 0, descendants = []\<rparr>, \<lparr>root_el = 1, descendants = []\<rparr>]"
    using n2 by simp
  have i: "input (editor_base ?q) = Some (WalkThroughInput ?b)"
    by (simp add: setInput_begin_base example_base_fields)
  from r c i show "\<exists>q. run example_services example_base
          [Call ?a, Call ?b, Resolved ?b ?m, Resolved ?a ?m] fresh_part = Inr q \<and>
        input (editor_base q) = Some (WalkThroughInput ?b) \<and>
        content q = [\<lparr>root_el = 0, descendants = []\<rparr>, \<lparr>root_el = 1, descendants = []\<rparr>]"
    by blast
qed

subsection \<open>Anchors and their editors\<close>

lemma name_char_plain: "is_name_char c \<Longrightarrow> c \<noteq> CHR ''.'' \<and> c \<noteq> CHR 0x5C"
  by (auto simp: is_name_char_def)

lemma dot_not_hex: "\<not> is_hex_digit CHR ''.''" "CHR ''.'' \<noteq> CHR 0x0A"
  by (simp_all add: is_hex_digit_def)

lemma sel_scan_escaped:
  "list_all is_id_char s \<Longrightarrow> cur @ s \<noteq> [] \<Longrightarrow>
   sel_scan cur [] (escape_dots s) = Some [cur @ s]"
proof (induction s arbitrary: cur)
  case Nil
  then show ?case by (simp add: escape_dots_def)
next
  case (Cons c s)
  from Cons.prems have s: "list_all is_id_char s" and c: "is_id_char c" by simp_all
  have ne: "(cur @ [c]) @ s \<noteq> []" by simp
  show ?case
  proof (cases "c = CHR ''.''")
    case True
    have "sel_scan cur [] (escape_dots (c # s)) = sel_scan (cur @ [c]) [] (escape_dots s)"
      using True by (simp add: escape_dots_def dot_not_hex)
    with Cons.IH[OF s ne] show ?thesis by simp
  next
    case False
    with c have n: "is_name_char c" by (simp add: is_id_char_def)
    have "sel_scan cur [] (escape_dots (c # s)) = sel_scan (cur @ [c]) [] (escape_dots s)"
      using False n name_char_plain[OF n] by (simp add: escape_dots_def)
    with Cons.IH[OF s ne] show ?thesis by simp
  qed
qed

lemma parse_selector_snippet:
  assumes "list_all is_id_char (snippet_fragment sn)"
  shows "parse_selector (CHR ''#'' # escape_dots (snippet_id sn)) = Some (snippet_id sn, [])"
proof -
  have a: "list_all is_id_char (snippet_id sn)"
    using assms by (simp add: snippet_id_def is_id_char_def is_name_char_def)
  have "sel_scan [] [] (escape_dots (snippet_id sn)) = Some [[] @ snippet_id sn]"
    by (rule sel_scan_escaped[OF a]) (simp add: snippet_id_def)
  moreover have "name_start_ok (escape_dots (snippet_id sn))"
    by (simp add: snippet_id_def escape_dots_def is_digit_def)
  ultimately show ?thesis by (simp add: parse_selector_def)
qed

lemma find_first_takeWhile:
  "map (\<lambda>a. map_option el_id (st a)) as = map Some ids \<Longrightarrow>
   length (takeWhile (\<lambda>x. x \<noteq> i) ids) = k \<Longrightarrow> k < length ids \<Longrightarrow>
   find_first st (i, []) as = Some (as ! k)"
proof (induction as arbitrary: ids k)
  case Nil
  then show ?case by simp
next
  case (Cons a as)
  from Cons.prems(1) obtain x ids' where ids: "ids = x # ids'"
    and a: "map_option el_id (st a) = Some x"
    and r: "map (\<lambda>a. map_option el_id (st a)) as = map Some ids'"
    by (cases ids) auto
  from a obtain e where e: "st a = Some e" "el_id e = x" by auto
  show ?case
  proof (cases "x = i")
    case True
    with Cons.prems(2) ids have "k = 0" by simp
    with True e show ?thesis by (simp add: matches_def)
  next
    case False
    with Cons.prems(2,3) ids obtain k' where k: "k = Suc k'"
      "length (takeWhile (\<lambda>x. x \<noteq> i) ids') = k'" "k' < length ids'"
      by auto
    from Cons.IH[OF r k(2,3)] False e k(1) show ?thesis by (simp add: matches_def)
  qed
qed

lemma fence_positions_shift: "fence_positions k bs = map ((+) k) (fence_positions 0 bs)"
proof (induction bs arbitrary: k)
  case Nil
  then show ?case by simp
next
  case (Cons b bs)
  show ?case
  proof (cases b)
    case (Prose es)
    have "fence_positions k (b # bs) = map ((+) (k + length es)) (fence_positions 0 bs)"
      using Prose Cons.IH[of "k + length es"] by simp
    moreover have "fence_positions 0 (b # bs) = map ((+) (length es)) (fence_positions 0 bs)"
      using Prose Cons.IH[of "length es"] by simp
    ultimately show ?thesis by (simp add: add.assoc comp_def)
  next
    case (Fence code lang)
    have "fence_positions k (b # bs) = k # map ((+) (Suc k)) (fence_positions 0 bs)"
      using Fence Cons.IH[of "Suc k"] by simp
    moreover have "fence_positions 0 (b # bs) = 0 # map ((+) (Suc 0)) (fence_positions 0 bs)"
      using Fence Cons.IH[of "Suc 0"] by simp
    ultimately show ?thesis by (simp add: comp_def)
  qed
qed

lemma snippet_id_inj: "snippet_id a = snippet_id b \<longleftrightarrow> snippet_fragment a = snippet_fragment b"
  by (simp add: snippet_id_def)

lemma render_blocks_positions:
  assumes "length (fence_positions 0 bs) + i = length sns"
    and "distinct (map snippet_fragment sns)"
    and "\<forall>e \<in> set (prose_elements bs). el_id e \<notin> snippet_id ` set sns"
  shows "\<exists>es. render_blocks sns i bs = Inr es \<and>
           length es = length (prose_elements bs) + length (fence_positions 0 bs) \<and>
           (\<forall>t < length (fence_positions 0 bs).
              length (takeWhile (\<lambda>x. x \<noteq> snippet_id (sns ! (i + t))) (map el_id es))
                = fence_positions 0 bs ! t \<and>
              fence_positions 0 bs ! t < length es \<and>
              es ! (fence_positions 0 bs ! t) = placeholder (sns ! (i + t)))"
  using assms
proof (induction bs arbitrary: i)
  case Nil
  then show ?case by simp
next
  case (Cons b bs)
  show ?case
  proof (cases b)
    case (Prose es0)
    have fp: "fence_positions 0 (b # bs) = map ((+) (length es0)) (fence_positions 0 bs)"
      using Prose fence_positions_shift[of "length es0" bs] by simp
    from Cons.prems Prose fp have p1: "length (fence_positions 0 bs) + i = length sns"
      and p3: "\<forall>e \<in> set (prose_elements bs). el_id e \<notin> snippet_id ` set sns"
      and p0: "\<forall>e \<in> set es0. el_id e \<notin> snippet_id ` set sns"
      by auto
    from Cons.IH[OF p1 Cons.prems(2) p3] obtain es where
      es: "render_blocks sns i bs = Inr es"
        "length es = length (prose_elements bs) + length (fence_positions 0 bs)"
      and pos: "\<forall>t < length (fence_positions 0 bs).
              length (takeWhile (\<lambda>x. x \<noteq> snippet_id (sns ! (i + t))) (map el_id es))
                = fence_positions 0 bs ! t \<and>
              fence_positions 0 bs ! t < length es \<and>
              es ! (fence_positions 0 bs ! t) = placeholder (sns ! (i + t))"
      by blast
    have r: "render_blocks sns i (b # bs) = Inr (es0 @ es)" using Prose es by simp
    have each: "length (takeWhile (\<lambda>x. x \<noteq> snippet_id (sns ! (i + t))) (map el_id (es0 @ es)))
            = fence_positions 0 (b # bs) ! t \<and>
          fence_positions 0 (b # bs) ! t < length (es0 @ es) \<and>
          (es0 @ es) ! (fence_positions 0 (b # bs) ! t) = placeholder (sns ! (i + t))"
      if t: "t < length (fence_positions 0 bs)" for t
    proof -
      from t p1 have "i + t < length sns" by simp
      then have "sns ! (i + t) \<in> set sns" by simp
      with p0 have all: "\<forall>x \<in> set (map el_id es0). x \<noteq> snippet_id (sns ! (i + t))"
        by auto
      have "takeWhile (\<lambda>x. x \<noteq> snippet_id (sns ! (i + t))) (map el_id es0 @ map el_id es)
            = map el_id es0 @ takeWhile (\<lambda>x. x \<noteq> snippet_id (sns ! (i + t))) (map el_id es)"
        by (rule takeWhile_append2) (use all in blast)
      then have tw: "takeWhile (\<lambda>x. x \<noteq> snippet_id (sns ! (i + t))) (map el_id (es0 @ es))
            = map el_id es0 @ takeWhile (\<lambda>x. x \<noteq> snippet_id (sns ! (i + t))) (map el_id es)"
        by simp
      from pos t have q: "length (takeWhile (\<lambda>x. x \<noteq> snippet_id (sns ! (i + t))) (map el_id es))
                = fence_positions 0 bs ! t"
        "fence_positions 0 bs ! t < length es"
        "es ! (fence_positions 0 bs ! t) = placeholder (sns ! (i + t))"
        by auto
      show ?thesis using tw q t by (simp add: fp nth_append)
    qed
    have pe: "length (prose_elements (b # bs)) = length es0 + length (prose_elements bs)"
      using Prose by simp
    have len: "length (fence_positions 0 (b # bs)) = length (fence_positions 0 bs)"
      by (simp add: fp)
    have L: "length (es0 @ es)
             = length (prose_elements (b # bs)) + length (fence_positions 0 (b # bs))"
      using es(2) pe len by simp
    from each len have "\<forall>t < length (fence_positions 0 (b # bs)).
          length (takeWhile (\<lambda>x. x \<noteq> snippet_id (sns ! (i + t))) (map el_id (es0 @ es)))
            = fence_positions 0 (b # bs) ! t \<and>
          fence_positions 0 (b # bs) ! t < length (es0 @ es) \<and>
          (es0 @ es) ! (fence_positions 0 (b # bs) ! t) = placeholder (sns ! (i + t))"
      by simp
    with r L show ?thesis by blast
  next
    case (Fence code lang)
    have fp: "fence_positions 0 (b # bs) = 0 # map Suc (fence_positions 0 bs)"
      using Fence fence_positions_shift[of "Suc 0" bs] by simp
    from Cons.prems Fence fp have p1: "length (fence_positions 0 bs) + Suc i = length sns"
      and p3: "\<forall>e \<in> set (prose_elements bs). el_id e \<notin> snippet_id ` set sns"
      and i: "i < length sns"
      by auto
    from Cons.IH[OF p1 Cons.prems(2) p3] obtain es where
      es: "render_blocks sns (Suc i) bs = Inr es"
        "length es = length (prose_elements bs) + length (fence_positions 0 bs)"
      and pos: "\<forall>t < length (fence_positions 0 bs).
              length (takeWhile (\<lambda>x. x \<noteq> snippet_id (sns ! (Suc i + t))) (map el_id es))
                = fence_positions 0 bs ! t \<and>
              fence_positions 0 bs ! t < length es \<and>
              es ! (fence_positions 0 bs ! t) = placeholder (sns ! (Suc i + t))"
      by blast
    let ?es = "placeholder (sns ! i) # es"
    have r: "render_blocks sns i (b # bs) = Inr ?es" using Fence es i by simp
    have each: "length (takeWhile (\<lambda>x. x \<noteq> snippet_id (sns ! (i + t))) (map el_id ?es))
            = fence_positions 0 (b # bs) ! t \<and>
          fence_positions 0 (b # bs) ! t < length ?es \<and>
          ?es ! (fence_positions 0 (b # bs) ! t) = placeholder (sns ! (i + t))"
      if t: "t < Suc (length (fence_positions 0 bs))" for t
    proof (cases t)
      case 0
      then show ?thesis by (simp add: fp placeholder_def)
    next
      case (Suc t')
      with t have t': "t' < length (fence_positions 0 bs)" by simp
      with p1 have lt: "Suc i + t' < length sns" by simp
      have "snippet_fragment (sns ! i) \<noteq> snippet_fragment (sns ! (Suc i + t'))"
        using Cons.prems(2) i lt by (simp add: distinct_conv_nth)
      then have ne: "snippet_id (sns ! i) \<noteq> snippet_id (sns ! (Suc i + t'))"
        by (simp add: snippet_id_inj)
      from pos t' have q: "length (takeWhile (\<lambda>x. x \<noteq> snippet_id (sns ! (Suc i + t'))) (map el_id es))
                = fence_positions 0 bs ! t'"
        "fence_positions 0 bs ! t' < length es"
        "es ! (fence_positions 0 bs ! t') = placeholder (sns ! (Suc i + t'))"
        by auto
      show ?thesis using Suc ne q t' by (simp add: fp placeholder_def)
    qed
    have pe: "length (prose_elements (b # bs)) = length (prose_elements bs)"
      using Fence by simp
    have len: "length (fence_positions 0 (b # bs)) = Suc (length (fence_positions 0 bs))"
      by (simp add: fp)
    have L: "length ?es
             = length (prose_elements (b # bs)) + length (fence_positions 0 (b # bs))"
      using es(2) pe len by simp
    from each len have "\<forall>t < length (fence_positions 0 (b # bs)).
          length (takeWhile (\<lambda>x. x \<noteq> snippet_id (sns ! (i + t))) (map el_id ?es))
            = fence_positions 0 (b # bs) ! t \<and>
          fence_positions 0 (b # bs) ! t < length ?es \<and>
          ?es ! (fence_positions 0 (b # bs) ! t) = placeholder (sns ! (i + t))"
      by simp
    with r L show ?thesis by blast
  qed
qed

lemma alloc_elements_store:
  "alloc_elements es p = (as, q) \<Longrightarrow>
   map (store q) as = map Some es \<and> (\<forall>a < next_addr p. store q a = store p a)"
proof (induction es arbitrary: p as q)
  case Nil
  then show ?case by simp
next
  case (Cons e es)
  let ?p1 = "p\<lparr>store := (store p)(next_addr p \<mapsto> e), next_addr := Suc (next_addr p)\<rparr>"
  obtain as' q' where r: "alloc_elements es ?p1 = (as', q')" by (cases "alloc_elements es ?p1")
  with Cons.prems have eq: "as = next_addr p # as'" "q = q'" by (simp_all add: Let_def)
  from Cons.IH[OF r] have ih: "map (store q') as' = map Some es"
    "\<forall>a < Suc (next_addr p). store q' a = store ?p1 a"
    by simp_all
  from ih(2) have "store q' (next_addr p) = Some e" by simp
  with ih eq show ?case by simp
qed

lemma attach_editor_ids:
  "map_option el_id (store (attach_editor sv host j sn p) a) = map_option el_id (store p a)"
  by (simp add: attach_editor_def updateHeight_def Let_def split: option.splits)

lemma attach_editor_editors:
  "editors (attach_editor sv host j sn p)
   = (editors p)(next_editor p \<mapsto> \<lparr>ed_host = host, ed_model = sn,
        lineHeight = editorLineHeight sv, ed_theme = colorTheme sv\<rparr>)"
  "next_editor (attach_editor sv host j sn p) = Suc (next_editor p)"
  by (simp_all add: attach_editor_def Let_def)

lemma mount_snippets_bind:
  assumes "map (\<lambda>a. map_option el_id (store p a)) as = map Some ids"
    and "length ps = length rest"
    and "\<forall>t < length rest.
           length (takeWhile (\<lambda>x. x \<noteq> snippet_id (rest ! t)) ids) = ps ! t \<and> ps ! t < length ids"
    and "\<forall>sn \<in> set rest. list_all is_id_char (snippet_fragment sn)"
  shows "\<exists>q. mount_snippets sv \<lparr>root_el = r, descendants = as\<rparr> j rest p = Inr q \<and>
           (\<forall>t < length rest. editors q (next_editor p + t)
              = Some \<lparr>ed_host = as ! (ps ! t), ed_model = rest ! t,
                      lineHeight = editorLineHeight sv, ed_theme = colorTheme sv\<rparr>) \<and>
           (\<forall>e < next_editor p. editors q e = editors p e) \<and>
           (\<forall>a. map_option el_id (store q a) = map_option el_id (store p a))"
  using assms
proof (induction rest arbitrary: p j ps)
  case Nil
  then show ?case by simp
next
  case (Cons sn rest)
  from Cons.prems(2) obtain k ps' where ps: "ps = k # ps'" "length ps' = length rest"
    by (cases ps) auto
  from Cons.prems(3) ps have k: "length (takeWhile (\<lambda>x. x \<noteq> snippet_id sn) ids) = k" "k < length ids"
    by auto
  from Cons.prems(3) ps have rest3: "\<forall>t < length rest.
           length (takeWhile (\<lambda>x. x \<noteq> snippet_id (rest ! t)) ids) = ps' ! t \<and> ps' ! t < length ids"
    by auto
  from Cons.prems(4) have c: "list_all is_id_char (snippet_fragment sn)"
    and rest4: "\<forall>sn \<in> set rest. list_all is_id_char (snippet_fragment sn)"
    by simp_all
  have ff: "find_first (store p) (snippet_id sn, []) as = Some (as ! k)"
    using Cons.prems(1) k by (rule find_first_takeWhile)
  let ?p' = "attach_editor sv (as ! k) j sn p"
  have m: "mount_snippet sv \<lparr>root_el = r, descendants = as\<rparr> j sn p = Inr ?p'"
    by (simp add: mount_snippet_def querySelector_def parse_selector_snippet[OF c] ff)
  have ids': "map (\<lambda>a. map_option el_id (store ?p' a)) as = map Some ids"
    using Cons.prems(1) by (simp add: attach_editor_ids)
  from Cons.IH[OF ids' ps(2) rest3 rest4, of "Suc j"] obtain q where
    q: "mount_snippets sv \<lparr>root_el = r, descendants = as\<rparr> (Suc j) rest ?p' = Inr q"
    and eds: "\<forall>t < length rest. editors q (next_editor ?p' + t)
              = Some \<lparr>ed_host = as ! (ps' ! t), ed_model = rest ! t,
                      lineHeight = editorLineHeight sv, ed_theme = colorTheme sv\<rparr>"
    and old: "\<forall>e < next_editor ?p'. editors q e = editors ?p' e"
    and st: "\<forall>a. map_option el_id (store q a) = map_option el_id (store ?p' a)"
    by blast
  have r: "mount_snippets sv \<lparr>root_el = r, descendants = as\<rparr> j (sn # rest) p = Inr q"
    using m q by simp
  have e: "editors q (next_editor p + t)
              = Some \<lparr>ed_host = as ! (ps ! t), ed_model = (sn # rest) ! t,
                      lineHeight = editorLineHeight sv, ed_theme = colorTheme sv\<rparr>"
    if t: "t < length (sn # rest)" for t
  proof (cases t)
    case 0
    with old show ?thesis by (simp add: attach_editor_editors ps)
  next
    case (Suc t')
    with t eds show ?thesis by (simp add: attach_editor_editors ps)
  qed
  have o: "\<forall>e < next_editor p. editors q e = editors p e"
    using old by (simp add: attach_editor_editors)
  have s: "\<forall>a. map_option el_id (store q a) = map_option el_id (store p a)"
    using st by (simp add: attach_editor_ids)
  from r e o s show ?case by blast
qed

lemma finish_mount_editors [simp]: "editors (finish_mount i p) = editors p"
  by (simp add: finish_mount_def loadTextEditorViewState_def Let_def split: option.splits)

text \<open>
  C1, as the code has it. Let a Markdown document have as many fenced blocks as snippet
  models are supplied, let the fragments of the models be pairwise distinct and made of
  name characters and dots, and let no element rendered from the prose carry the id of a
  snippet. Then the rendering puts one placeholder per fenced block, in the order of the
  blocks, the one for block \<open>t\<close> with the id built from the fragment of model \<open>t\<close>; and the
  mount succeeds and creates editor \<open>t\<close> on exactly that placeholder, with model \<open>t\<close>.
  Fragments with dots are covered: the dots are escaped in the selector.
\<close>

theorem anchors_bound_in_order:
  assumes blocks: "marked_blocks sv (expandMacros sv (join_lines (main_lines m))) = blocks"
    and count: "length (fence_positions 0 blocks) = length (snippets m)"
    and chars: "\<forall>sn \<in> set (snippets m). list_all is_id_char (snippet_fragment sn)"
    and dist: "distinct (map snippet_fragment (snippets m))"
    and prose: "\<forall>e \<in> set (prose_elements blocks). el_id e \<notin> snippet_id ` set (snippets m)"
  shows "\<exists>es q. render_blocks (snippets m) 0 blocks = Inr es \<and>
           length es = length (prose_elements blocks) + length (snippets m) \<and>
           mount_markdown sv i m p = Inr q \<and>
           (\<forall>t < length (snippets m).
              es ! (fence_positions 0 blocks ! t) = placeholder (snippets m ! t) \<and>
              map_option el_id (store q (Suc (next_addr p) + fence_positions 0 blocks ! t))
                = Some (snippet_id (snippets m ! t)) \<and>
              editors q (next_editor p + t)
                = Some \<lparr>ed_host = Suc (next_addr p) + fence_positions 0 blocks ! t,
                        ed_model = snippets m ! t,
                        lineHeight = editorLineHeight sv, ed_theme = colorTheme sv\<rparr>)"
proof -
  let ?sns = "snippets m"
  let ?fp = "fence_positions 0 blocks"
  from count have c0: "length ?fp + 0 = length ?sns" by simp
  from render_blocks_positions[OF c0 dist prose] obtain es where
    es: "render_blocks ?sns 0 blocks = Inr es"
      "length es = length (prose_elements blocks) + length ?fp"
    and pos: "\<forall>t < length ?fp.
              length (takeWhile (\<lambda>x. x \<noteq> snippet_id (?sns ! (0 + t))) (map el_id es)) = ?fp ! t \<and>
              ?fp ! t < length es \<and> es ! (?fp ! t) = placeholder (?sns ! (0 + t))"
    by blast
  let ?r = "next_addr p"
  let ?p1 = "p\<lparr>store := (store p)(?r \<mapsto>
                \<lparr>el_id = [], el_classes = [''walkThroughContent''], el_height = Unset\<rparr>),
              next_addr := Suc ?r\<rparr>"
  obtain as p2 where a: "alloc_elements es ?p1 = (as, p2)" by (cases "alloc_elements es ?p1")
  let ?p3 = "p2\<lparr>contentDisposables := contentDisposables p2 @ [RootStyleSub ?r],
                content := content p2 @ [\<lparr>root_el = ?r, descendants = as\<rparr>],
                trace := trace p2 @ [Styled ?r, RootAppended ?r]\<rparr>"
  note fr = alloc_elements_frame[OF a]
  from fr have as: "as = [Suc ?r ..< Suc ?r + length es]" by simp
  from alloc_elements_store[OF a] have st: "map (store p2) as = map Some es" by simp
  have ids: "map (\<lambda>a. map_option el_id (store ?p3 a)) as = map Some (map el_id es)"
  proof -
    have "map (\<lambda>a. map_option el_id (store ?p3 a)) as = map (map_option el_id) (map (store p2) as)"
      by (simp add: comp_def)
    also have "\<dots> = map Some (map el_id es)" by (simp add: st comp_def)
    finally show ?thesis .
  qed
  have l: "length ?fp = length ?sns" by (rule count)
  have p3: "\<forall>t < length ?sns.
      length (takeWhile (\<lambda>x. x \<noteq> snippet_id (?sns ! t)) (map el_id es)) = ?fp ! t \<and>
      ?fp ! t < length (map el_id es)"
    using pos l by simp
  from mount_snippets_bind[OF ids l p3 chars, of sv ?r 0] obtain p4 where
    m: "mount_snippets sv \<lparr>root_el = ?r, descendants = as\<rparr> 0 ?sns ?p3 = Inr p4"
    and eds: "\<forall>t < length ?sns. editors p4 (next_editor ?p3 + t)
              = Some \<lparr>ed_host = as ! (?fp ! t), ed_model = ?sns ! t,
                      lineHeight = editorLineHeight sv, ed_theme = colorTheme sv\<rparr>"
    and sto: "\<forall>a. map_option el_id (store p4 a) = map_option el_id (store ?p3 a)"
    by blast
  let ?q = "finish_mount i p4"
  have mm: "mount_markdown sv i m p = Inr ?q"
    using es(1) a m by (simp add: mount_markdown_def blocks Let_def)
  have each: "es ! (?fp ! t) = placeholder (?sns ! t) \<and>
              map_option el_id (store ?q (Suc ?r + ?fp ! t)) = Some (snippet_id (?sns ! t)) \<and>
              editors ?q (next_editor p + t)
                = Some \<lparr>ed_host = Suc ?r + ?fp ! t, ed_model = ?sns ! t,
                        lineHeight = editorLineHeight sv, ed_theme = colorTheme sv\<rparr>"
    if t: "t < length ?sns" for t
  proof -
    from pos t l have b: "?fp ! t < length es" "es ! (?fp ! t) = placeholder (?sns ! t)"
      by auto
    have n: "as ! (?fp ! t) = Suc ?r + ?fp ! t"
      unfolding as by (rule nth_upt) (use b(1) in simp)
    have "length as = length es" using st by (metis length_map)
    with b(1) have "?fp ! t < length as" by simp
    with st have "store p2 (as ! (?fp ! t)) = Some (es ! (?fp ! t))"
      by (metis length_map nth_map)
    with n b(2) have "map_option el_id (store ?p3 (Suc ?r + ?fp ! t)) = Some (snippet_id (?sns ! t))"
      by (simp add: placeholder_def)
    with sto have s: "map_option el_id (store ?q (Suc ?r + ?fp ! t)) = Some (snippet_id (?sns ! t))"
      by simp
    from eds t n fr have e: "editors ?q (next_editor p + t)
                = Some \<lparr>ed_host = Suc ?r + ?fp ! t, ed_model = ?sns ! t,
                        lineHeight = editorLineHeight sv, ed_theme = colorTheme sv\<rparr>"
      by simp
    from b(2) s e show ?thesis by simp
  qed
  from es l mm each show ?thesis by auto
qed

lemma ex_blocks:
  "marked_blocks example_services (expandMacros example_services (join_lines (main_lines example_model)))
   = [Prose [\<lparr>el_id = ''section2'', el_classes = [], el_height = Unset\<rparr>],
      Fence ''let x = 1;'' ''js'', Fence ''let y: number;'' ''ts'']"
  by (simp add: example_model_def example_services_def match_kb_def is_kb_char_def)

theorem anchors_bound_in_order_witness:
  "length (fence_positions 0
      (marked_blocks example_services
         (expandMacros example_services (join_lines (main_lines example_model)))))
     = length (snippets example_model) \<and>
   map snippet_fragment (snippets example_model) = [''0.js'', ''1.ts''] \<and>
   list_all is_id_char ''0.js'' \<and> list_all is_id_char ''1.ts'' \<and>
   distinct [''0.js'', ''1.ts''] \<and>
   mount_markdown example_services (example_input ''/a.md'') example_model
     (fresh_part\<lparr>editor_base := \<lparr>input = Some (WalkThroughInput (example_input ''/a.md'')),
                         position = Some 1\<rparr>, trace := [ContentCleared]\<rparr>)
     = Inr example_mounted \<and>
   map_option el_id (store example_mounted 2) = Some ''snippet-0.js'' \<and>
   map_option el_id (store example_mounted 3) = Some ''snippet-1.ts'' \<and>
   editors example_mounted 0
     = Some \<lparr>ed_host = 2, ed_model = \<lparr>snippet_fragment = ''0.js'', lineCount = 7\<rparr>,
              lineHeight = 19, ed_theme = ''vs''\<rparr> \<and>
   editors example_mounted 1
     = Some \<lparr>ed_host = 3, ed_model = \<lparr>snippet_fragment = ''1.ts'', lineCount = 1\<rparr>,
              lineHeight = 19, ed_theme = ''vs''\<rparr>"
proof -
  let ?p = "fresh_part\<lparr>editor_base := \<lparr>input = Some (WalkThroughInput (example_input ''/a.md'')),
                         position = Some 1\<rparr>, trace := [ContentCleared]\<rparr>"
  let ?blocks = "[Prose [\<lparr>el_id = ''section2'', el_classes = [], el_height = Unset\<rparr>],
      Fence ''let x = 1;'' ''js'', Fence ''let y: number;'' ''ts'']"
  have sn: "snippets example_model
            = [\<lparr>snippet_fragment = ''0.js'', lineCount = 7\<rparr>,
               \<lparr>snippet_fragment = ''1.ts'', lineCount = 1\<rparr>]"
    by (simp add: example_model_def example_snippet_def)
  have fp: "fence_positions 0 ?blocks = [1, 2]" by simp
  have count: "length (fence_positions 0 ?blocks) = length (snippets example_model)"
    by (simp add: sn)
  have c: "list_all is_id_char ''0.js''" "list_all is_id_char ''1.ts''"
    by (simp_all add: is_id_char_def is_name_char_def)
  then have chars: "\<forall>sn \<in> set (snippets example_model). list_all is_id_char (snippet_fragment sn)"
    by (simp add: sn)
  have dist: "distinct (map snippet_fragment (snippets example_model))"
    by (simp add: sn)
  have prose: "\<forall>e \<in> set (prose_elements ?blocks). el_id e \<notin> snippet_id ` set (snippets example_model)"
    by (simp add: sn snippet_id_def)
  from anchors_bound_in_order[OF ex_blocks count chars dist prose, of "example_input ''/a.md''" ?p]
  obtain es q where q: "mount_markdown example_services (example_input ''/a.md'') example_model ?p = Inr q"
    and each: "\<forall>t < length (snippets example_model).
              es ! (fence_positions 0 ?blocks ! t) = placeholder (snippets example_model ! t) \<and>
              map_option el_id (store q (Suc (next_addr ?p) + fence_positions 0 ?blocks ! t))
                = Some (snippet_id (snippets example_model ! t)) \<and>
              editors q (next_editor ?p + t)
                = Some \<lparr>ed_host = Suc (next_addr ?p) + fence_positions 0 ?blocks ! t,
                        ed_model = snippets example_model ! t,
                        lineHeight = editorLineHeight example_services,
                        ed_theme = colorTheme example_services\<rparr>"
    by blast
  from q ex_mount_markdown have qe: "q = example_mounted" by simp
  have n: "next_addr ?p = 0" "next_editor ?p = 0" by (simp_all add: fresh_part_def)
  have l2: "0 < length (snippets example_model)" "1 < length (snippets example_model)"
    by (simp_all add: sn)
  have r0: "map_option el_id (store example_mounted 2) = Some ''snippet-0.js''"
    "editors example_mounted 0
     = Some \<lparr>ed_host = 2, ed_model = \<lparr>snippet_fragment = ''0.js'', lineCount = 7\<rparr>,
              lineHeight = 19, ed_theme = ''vs''\<rparr>"
    using each[rule_format, OF l2(1)]
    by (simp_all add: qe n sn snippet_id_def example_services_fields fresh_part_def
          numeral_2_eq_2[symmetric])
  have r1: "map_option el_id (store example_mounted 3) = Some ''snippet-1.ts''"
    "editors example_mounted 1
     = Some \<lparr>ed_host = 3, ed_model = \<lparr>snippet_fragment = ''1.ts'', lineCount = 1\<rparr>,
              lineHeight = 19, ed_theme = ''vs''\<rparr>"
    using each[rule_format, OF l2(2)]
    by (simp_all add: qe n sn snippet_id_def example_services_fields fresh_part_def
          numeral_2_eq_2[symmetric])
  from count c r0 r1 ex_mount_markdown show ?thesis
    by (simp add: ex_blocks sn)
qed

text \<open>
  Two snippet models with the same fragment: both placeholders get the same id, the lookup
  finds the first of them both times, and the second model is bound to the first
  placeholder. The second placeholder gets no editor.
\<close>

lemma duplicate_fragment_mount:
  "\<exists>q. mount_markdown example_services (example_input ''/a.md'')
          \<lparr>main_lines = [''x''],
            snippets = [\<lparr>snippet_fragment = ''a'', lineCount = 1\<rparr>,
                        \<lparr>snippet_fragment = ''a'', lineCount = 5\<rparr>]\<rparr>
          fresh_part = Inr q \<and>
        map_option el_id (store q 2) = Some ''snippet-a'' \<and>
        map_option el_id (store q 3) = Some ''snippet-a'' \<and>
        map_option ed_host (editors q 0) = Some 2 \<and>
        map_option ed_host (editors q 1) = Some 2 \<and>
        map_option (lineCount \<circ> ed_model) (editors q 1) = Some 5"
proof -
  let ?s1 = "\<lparr>snippet_fragment = ''a'', lineCount = 1\<rparr>"
  let ?s2 = "\<lparr>snippet_fragment = ''a'', lineCount = 5\<rparr>"
  let ?m = "\<lparr>main_lines = [''x''], snippets = [?s1, ?s2]\<rparr>"
  let ?ph = "\<lparr>el_id = ''snippet-a'', el_classes = [''walkThroughEditorContainer''],
               el_height = Unset\<rparr>"
  let ?inner = "\<lparr>root_el = 0, descendants = [1, 2, 3]\<rparr>"
  let ?p3 = "fresh_part\<lparr>store := [0 \<mapsto> \<lparr>el_id = [], el_classes = [''walkThroughContent''],
                                          el_height = Unset\<rparr>,
                                   1 \<mapsto> \<lparr>el_id = ''section2'', el_classes = [], el_height = Unset\<rparr>,
                                   2 \<mapsto> ?ph, 3 \<mapsto> ?ph],
                         next_addr := 4, contentDisposables := [RootStyleSub 0],
                         content := [?inner], trace := [Styled 0, RootAppended 0]\<rparr>"
  let ?p4 = "attach_editor example_services 2 0 ?s1 ?p3"
  let ?p5 = "attach_editor example_services 2 1 ?s2 ?p4"
  let ?q = "finish_mount (example_input ''/a.md'') ?p5"
  have r: "render_blocks (snippets ?m) 0
             (marked_blocks example_services (expandMacros example_services (join_lines (main_lines ?m))))
           = Inr [\<lparr>el_id = ''section2'', el_classes = [], el_height = Unset\<rparr>, ?ph, ?ph]"
    by (simp add: example_services_def placeholder_def snippet_id_def match_kb_def)
  have q3: "querySelector (store ?p3) [1, 2, 3] (CHR ''#'' # escape_dots (snippet_id ?s1)) = Inr (Some 2)"
    by (simp add: sel_eval fresh_part_def)
  have m1: "mount_snippet example_services ?inner 0 ?s1 ?p3 = Inr ?p4"
    using q3 by (simp add: mount_snippet_def)
  have i4: "map (\<lambda>a. map_option el_id (store ?p4 a)) [1, 2, 3]
            = map Some [''section2'', ''snippet-a'', ''snippet-a'']"
    by (simp add: attach_editor_ids fresh_part_def)
  have ff: "find_first (store ?p4) (''snippet-a'', []) [1, 2, 3] = Some 2"
    using find_first_takeWhile[OF i4, of "''snippet-a''" 1] by simp
  have ps: "parse_selector (CHR ''#'' # escape_dots (snippet_id ?s2)) = Some (''snippet-a'', [])"
    using parse_selector_snippet[of ?s2]
    by (simp add: is_id_char_def is_name_char_def snippet_id_def)
  have q4: "querySelector (store ?p4) [1, 2, 3] (CHR ''#'' # escape_dots (snippet_id ?s2))
                 = Inr (Some 2)"
    unfolding querySelector_def ps using ff by simp
  have m2: "mount_snippet example_services ?inner 1 ?s2 ?p4 = Inr ?p5"
    using q4 by (simp add: mount_snippet_def)
  have ms: "mount_snippets example_services ?inner 0 [?s1, ?s2] ?p3 = Inr ?p5"
    using m1 m2 by simp
  have mm: "mount_markdown example_services (example_input ''/a.md'') ?m fresh_part = Inr ?q"
    unfolding mount_markdown_def r
    apply (simp add: Let_def fresh_part_def del: mount_snippets.simps)
    using ms apply (simp add: fresh_part_def eval_nat_numeral del: mount_snippets.simps)
    done
  have s2: "map_option el_id (store ?q 2) = Some ''snippet-a''"
    and s3: "map_option el_id (store ?q 3) = Some ''snippet-a''"
    by (simp_all add: attach_editor_ids fresh_part_def)
  have n: "next_editor ?p3 = 0" "next_editor ?p4 = 1"
    by (simp_all add: attach_editor_editors fresh_part_def)
  have e0: "map_option ed_host (editors ?q 0) = Some 2"
    and e1: "map_option ed_host (editors ?q 1) = Some 2"
    and e2: "map_option (lineCount \<circ> ed_model) (editors ?q 1) = Some 5"
    by (simp_all add: attach_editor_editors n fresh_part_def)
  from mm s2 s3 e0 e1 e2 show ?thesis by blast
qed


text \<open>
  An element of the prose with the id of a snippet, standing before the placeholder (a
  heading, which the Markdown engine gives an id made from its text): the lookup finds
  that element, and the editor is created on it and not on the placeholder.
\<close>

lemma attach_editor_classes:
  "map_option el_classes (store (attach_editor sv host j sn p) a) = map_option el_classes (store p a)"
  by (simp add: attach_editor_def updateHeight_def Let_def split: option.splits)

lemma prose_id_mount:
  "\<exists>q. mount_markdown
          (example_services\<lparr>marked_blocks :=
             (\<lambda>s. [Prose [\<lparr>el_id = ''snippet-a'', el_classes = [], el_height = Unset\<rparr>],
                    Fence ''let x = 1;'' ''js''])\<rparr>)
          (example_input ''/a.md'')
          \<lparr>main_lines = [''x''], snippets = [\<lparr>snippet_fragment = ''a'', lineCount = 1\<rparr>]\<rparr>
          fresh_part = Inr q \<and>
        map_option el_classes (store q 1) = Some [] \<and>
        map_option el_classes (store q 2) = Some [''walkThroughEditorContainer''] \<and>
        map_option ed_host (editors q 0) = Some 1"
proof -
  let ?pe = "\<lparr>el_id = ''snippet-a'', el_classes = [], el_height = Unset\<rparr>"
  let ?sv = "example_services\<lparr>marked_blocks := (\<lambda>s. [Prose [?pe], Fence ''let x = 1;'' ''js''])\<rparr>"
  let ?s1 = "\<lparr>snippet_fragment = ''a'', lineCount = 1\<rparr>"
  let ?m = "\<lparr>main_lines = [''x''], snippets = [?s1]\<rparr>"
  let ?ph = "\<lparr>el_id = ''snippet-a'', el_classes = [''walkThroughEditorContainer''],
               el_height = Unset\<rparr>"
  let ?inner = "\<lparr>root_el = 0, descendants = [1, 2]\<rparr>"
  let ?p3 = "fresh_part\<lparr>store := [0 \<mapsto> \<lparr>el_id = [], el_classes = [''walkThroughContent''],
                                          el_height = Unset\<rparr>,
                                   1 \<mapsto> ?pe, 2 \<mapsto> ?ph],
                         next_addr := 3, contentDisposables := [RootStyleSub 0],
                         content := [?inner], trace := [Styled 0, RootAppended 0]\<rparr>"
  let ?p4 = "attach_editor ?sv 1 0 ?s1 ?p3"
  let ?q = "finish_mount (example_input ''/a.md'') ?p4"
  have r: "render_blocks (snippets ?m) 0
             (marked_blocks ?sv (expandMacros ?sv (join_lines (main_lines ?m))))
           = Inr [?pe, ?ph]"
    by (simp add: placeholder_def snippet_id_def)
  have q3: "querySelector (store ?p3) [1, 2] (CHR ''#'' # escape_dots (snippet_id ?s1)) = Inr (Some 1)"
    by (simp add: sel_eval fresh_part_def)
  have m1: "mount_snippet ?sv ?inner 0 ?s1 ?p3 = Inr ?p4"
    using q3 by (simp add: mount_snippet_def)
  have ms: "mount_snippets ?sv ?inner 0 [?s1] ?p3 = Inr ?p4"
    using m1 by simp
  have mm: "mount_markdown ?sv (example_input ''/a.md'') ?m fresh_part = Inr ?q"
    unfolding mount_markdown_def r
    apply (simp add: Let_def fresh_part_def del: mount_snippets.simps)
    using ms apply (simp add: fresh_part_def eval_nat_numeral del: mount_snippets.simps)
    done
  have c1: "map_option el_classes (store ?q 1) = Some []"
    and c2: "map_option el_classes (store ?q 2) = Some [''walkThroughEditorContainer'']"
    by (simp_all add: attach_editor_classes fresh_part_def)
  have e0: "map_option ed_host (editors ?q 0) = Some 1"
    by (simp add: attach_editor_editors fresh_part_def)
  from mm c1 c2 e0 show ?thesis by blast
qed

text \<open>
  A fragment with a colon: the selector \<^verbatim>\<open>#snippet-a:b\<close> asks for a pseudo-class that does
  not exist, the lookup throws, and no editor is created.
\<close>

lemma colon_fragment_mount:
  "mount_markdown example_services (example_input ''/a.md'')
     \<lparr>main_lines = [''x''],
       snippets = [\<lparr>snippet_fragment = ''a:b'', lineCount = 1\<rparr>,
                   \<lparr>snippet_fragment = ''c'', lineCount = 1\<rparr>]\<rparr>
     fresh_part = Inl SyntaxError"
proof -
  let ?s1 = "\<lparr>snippet_fragment = ''a:b'', lineCount = 1\<rparr>"
  let ?s2 = "\<lparr>snippet_fragment = ''c'', lineCount = 1\<rparr>"
  let ?m = "\<lparr>main_lines = [''x''], snippets = [?s1, ?s2]\<rparr>"
  have r: "render_blocks (snippets ?m) 0
             (marked_blocks example_services (expandMacros example_services (join_lines (main_lines ?m))))
           = Inr [\<lparr>el_id = ''section2'', el_classes = [], el_height = Unset\<rparr>,
                  placeholder ?s1, placeholder ?s2]"
    by (simp add: example_services_def match_kb_def)
  have ps: "parse_selector
              (CHR ''#'' # escape_dots (snippet_id \<lparr>snippet_fragment = ''a:b'', lineCount = n\<rparr>))
            = None" for n
    by (simp add: parse_selector_def escape_dots_def snippet_id_def is_name_char_def
          is_digit_def is_hex_digit_def)
  have m1: "mount_snippet example_services inner 0 \<lparr>snippet_fragment = ''a:b'', lineCount = n\<rparr> p
            = Inl SyntaxError" for inner p n
    unfolding mount_snippet_def querySelector_def ps by simp
  show ?thesis
    unfolding mount_markdown_def r
    by (simp add: Let_def m1 split: prod.splits)
qed

text \<open>
  The claim C1 as stated fails in three ways: with two snippet models of the same
  fragment, with an element of the prose that has the id of a snippet, and with a
  fragment that is not made of name characters and dots. In each case a document with as
  many fenced blocks as snippet models is mounted, and a placeholder is left without its
  editor.
\<close>

theorem unbound_anchor_counterexample:
  "(\<exists>q. mount_markdown example_services (example_input ''/a.md'')
          \<lparr>main_lines = [''x''],
            snippets = [\<lparr>snippet_fragment = ''a'', lineCount = 1\<rparr>,
                        \<lparr>snippet_fragment = ''a'', lineCount = 5\<rparr>]\<rparr>
          fresh_part = Inr q \<and>
        map_option el_id (store q 2) = Some ''snippet-a'' \<and>
        map_option el_id (store q 3) = Some ''snippet-a'' \<and>
        map_option ed_host (editors q 0) = Some 2 \<and>
        map_option ed_host (editors q 1) = Some 2 \<and>
        map_option (lineCount \<circ> ed_model) (editors q 1) = Some 5) \<and>
   (\<exists>q. mount_markdown
          (example_services\<lparr>marked_blocks :=
             (\<lambda>s. [Prose [\<lparr>el_id = ''snippet-a'', el_classes = [], el_height = Unset\<rparr>],
                    Fence ''let x = 1;'' ''js''])\<rparr>)
          (example_input ''/a.md'')
          \<lparr>main_lines = [''x''], snippets = [\<lparr>snippet_fragment = ''a'', lineCount = 1\<rparr>]\<rparr>
          fresh_part = Inr q \<and>
        map_option el_classes (store q 1) = Some [] \<and>
        map_option el_classes (store q 2) = Some [''walkThroughEditorContainer''] \<and>
        map_option ed_host (editors q 0) = Some 1) \<and>
   mount_markdown example_services (example_input ''/a.md'')
     \<lparr>main_lines = [''x''],
       snippets = [\<lparr>snippet_fragment = ''a:b'', lineCount = 1\<rparr>,
                   \<lparr>snippet_fragment = ''c'', lineCount = 1\<rparr>]\<rparr>
     fresh_part = Inl SyntaxError"
  by (intro conjI duplicate_fragment_mount prose_id_mount colon_fragment_mount)
subsection \<open>Clicks\<close>











end
